theory Spec2Isabelle
  imports
    Complex_Main
    "HOL-Library.AList"
    "HOL-Library.List_Lexorder"
    "HOL-Library.Product_Lexorder"
    "HOL-Library.Char_ord"
begin

section \<open>nanoemoji: assembling a color font from per-glyph artwork\<close>

text \<open>
  A shallow embedding of \<^verbatim>\<open>src/nanoemoji/nanoemoji.py\<close>. Python exceptions are values of
  \<open>error\<close>; a function that can raise returns \<open>error + 'a\<close> with \<open>Inl\<close> the exception.
  The font object (\<^verbatim>\<open>ufoLib2.Font\<close>) is an explicit state that every encoder takes and
  returns.
\<close>

subsection \<open>Exceptions and strings\<close>

datatype error =
    KeyError string
  | ValueError string
  | NotImplementedError string
  | AttributeError string
  | StopIteration

text \<open>\<^verbatim>\<open>sep.join(xs)\<close> of Python.\<close>

fun join :: "string \<Rightarrow> string list \<Rightarrow> string" where
  "join sep [] = []"
| "join sep [x] = x"
| "join sep (x # y # ys) = x @ sep @ join sep (y # ys)"

subsection \<open>Ligature rules: \<^verbatim>\<open>_generate_fea\<close>\<close>

text \<open>
  \<^verbatim>\<open>glyph_name\<close> (of \<^verbatim>\<open>nanoemoji.glyph\<close>) is not among the sources: the functions that call
  it take it as the parameter \<open>gn\<close>.

  The loop of \<^verbatim>\<open>_generate_fea\<close> over the sorted pairs, with \<open>rules\<close> the list built so far:
  a pair whose sequence has length 1 is skipped (\<^verbatim>\<open>continue\<close>), every other pair appends one
  line \<^verbatim>\<open>"  sub %s by %s;" % (" ".join(glyphs), target)\<close>.
\<close>

fun fea_loop :: "(int \<Rightarrow> string) \<Rightarrow> (int list \<times> string) list \<Rightarrow> string list \<Rightarrow> string list" where
  "fea_loop gn [] rules = rules"
| "fea_loop gn ((rgi, target) # rest) rules =
     (if length rgi = 1 then fea_loop gn rest rules
      else fea_loop gn rest
             (rules @ [''  sub '' @ join '' '' (map gn rgi) @ '' by '' @ target @ '';'']))"

text \<open>
  The list \<^verbatim>\<open>rules\<close> at the end of \<^verbatim>\<open>_generate_fea\<close>. Python sorts the pairs as tuples:
  the codepoint tuples lexicographically, then the target names; that is the order of
  \<open>int list \<times> string\<close> here.
\<close>

definition generate_fea_rules :: "(int \<Rightarrow> string) \<Rightarrow> (int list \<times> string) list \<Rightarrow> string list" where
  "generate_fea_rules gn rgi_sequences =
     fea_loop gn (sort rgi_sequences)
       [''languagesystem DFLT dflt;'', ''languagesystem latn dflt;'', ''feature rlig {'']
     @ [''} rlig;'']"

definition generate_fea :: "(int \<Rightarrow> string) \<Rightarrow> (int list \<times> string) list \<Rightarrow> string" where
  "generate_fea gn rgi_sequences = join [CHR 0x0A] (generate_fea_rules gn rgi_sequences)"

text \<open>The line the claim calls a substitution rule "sequence of input glyphs to target glyph".\<close>

definition sub_rule :: "(int \<Rightarrow> string) \<Rightarrow> int list \<times> string \<Rightarrow> string" where
  "sub_rule gn p = ''  sub '' @ join '' '' (map gn (fst p)) @ '' by '' @ snd p @ '';''"

subsection \<open>Glyph names\<close>

text \<open>
  Modelled from the spec: \<^verbatim>\<open>glyph_name\<close> of \<^verbatim>\<open>nanoemoji.glyph\<close>, which is not among the
  sources. The spec asks only that a glyph's name derive deterministically from its
  codepoints. The model is the naming of the repository: \<^verbatim>\<open>"emoji_" + "%04x" % codepoint\<close>,
  lower-case hexadecimal padded with zeros to four digits. It is used only to instantiate
  the parameter \<open>gn\<close> at concrete inputs.
\<close>

definition hex_digit :: "nat \<Rightarrow> char" where
  "hex_digit n = ''0123456789abcdef'' ! (n mod 16)"

fun hex :: "nat \<Rightarrow> string" where
  "hex n = (if n < 16 then [hex_digit n] else hex (n div 16) @ [hex_digit n])"

declare hex.simps [simp del]

definition emoji_glyph_name :: "int \<Rightarrow> string" where
  "emoji_glyph_name cp =
     (let h = hex (nat cp) in ''emoji_'' @ replicate (4 - length h) (CHR ''0'') @ h)"

subsection \<open>Python's \<^verbatim>\<open>str\<close> of an integer\<close>

definition digit_char :: "nat \<Rightarrow> char" where
  "digit_char n = ''0123456789'' ! (n mod 10)"

fun str_nat :: "nat \<Rightarrow> string" where
  "str_nat n = (if n < 10 then [digit_char n] else str_nat (n div 10) @ [digit_char n])"

declare str_nat.simps [simp del]

definition str_int :: "int \<Rightarrow> string" where
  "str_int i = (if i < 0 then CHR ''-'' # str_nat (nat (- i)) else str_nat (nat i))"

subsection \<open>Affine transforms\<close>

text \<open>
  \<^verbatim>\<open>Affine2D\<close> of picosvg, a named tuple \<^verbatim>\<open>(a, b, c, d, e, f)\<close> of numbers; \<^verbatim>\<open>(e, f)\<close> is the
  translation. The numbers are modelled as reals. picosvg is a library outside the
  repository; the model gives \<^verbatim>\<open>identity\<close>, \<^verbatim>\<open>product\<close>, \<^verbatim>\<open>translate\<close> and \<^verbatim>\<open>gettranslate\<close>
  as the library defines them.
\<close>

datatype Affine2D = Affine2D (aff_a: real) (aff_b: real) (aff_c: real) (aff_d: real) (aff_e: real) (aff_f: real)

definition identity :: Affine2D where
  "identity = Affine2D 1 0 0 1 0 0"

text \<open>\<^verbatim>\<open>Affine2D.product(first, second)\<close>: apply \<open>first\<close>, then \<open>second\<close>.\<close>

definition product :: "Affine2D \<Rightarrow> Affine2D \<Rightarrow> Affine2D" where
  "product first second =
     Affine2D
       (aff_a first * aff_a second + aff_b first * aff_c second)
       (aff_a first * aff_b second + aff_b first * aff_d second)
       (aff_c first * aff_a second + aff_d first * aff_c second)
       (aff_c first * aff_b second + aff_d first * aff_d second)
       (aff_a second * aff_e first + aff_c second * aff_f first + aff_e second)
       (aff_b second * aff_e first + aff_d second * aff_f first + aff_f second)"

definition translate :: "Affine2D \<Rightarrow> real \<Rightarrow> real \<Rightarrow> Affine2D" where
  "translate t tx ty =
     (if (0, 0) = (tx, ty) then t else product (Affine2D 1 0 0 1 tx ty) t)"

definition gettranslate :: "Affine2D \<Rightarrow> real \<times> real" where
  "gettranslate t = (aff_e t, aff_f t)"

subsection \<open>Colors and paints\<close>

text \<open>
  Modelled from the spec: \<^verbatim>\<open>Color\<close> (of \<^verbatim>\<open>nanoemoji.colors\<close>) and \<^verbatim>\<open>Paint\<close> (of
  \<^verbatim>\<open>nanoemoji.paint\<close>), which are not among the sources. A color is the tuple
  (red, green, blue, alpha), ordered as Python orders tuples; its opaque reduction sets
  alpha to 1. A paint is "a color or gradient descriptor": a solid color, or a gradient
  with its color stops (stop offset, color) in order. \<^verbatim>\<open>paint.colors()\<close> yields the colors the
  paint mentions, in order.
\<close>

type_synonym color = "int \<times> int \<times> int \<times> real"

definition alpha :: "color \<Rightarrow> real" where
  "alpha c = snd (snd (snd c))"

definition opaque :: "color \<Rightarrow> color" where
  "opaque c = (fst c, fst (snd c), fst (snd (snd c)), 1)"

datatype Paint = PaintSolid color | PaintGradient "(real \<times> color) list"

fun paint_colors :: "Paint \<Rightarrow> color list" where
  "paint_colors (PaintSolid c) = [c]"
| "paint_colors (PaintGradient stops) = map snd stops"

text \<open>\<^verbatim>\<open>xs.index(x)\<close> of a Python list: the first position of \<open>x\<close>, or ValueError.\<close>

fun index_from :: "nat \<Rightarrow> 'a list \<Rightarrow> 'a \<Rightarrow> error + nat" where
  "index_from i [] x = Inl (ValueError ''not in list'')"
| "index_from i (y # ys) x = (if y = x then Inr i else index_from (Suc i) ys x)"

definition py_index :: "'a list \<Rightarrow> 'a \<Rightarrow> error + nat" where
  "py_index xs x = index_from 0 xs x"

text \<open>
  What a layer's paint becomes in the color-layers table: under version 0 a palette index;
  under version 1 the structure \<^verbatim>\<open>paint.to_ufo_paint(palette)\<close> builds.

  Modelled from the spec: \<^verbatim>\<open>to_ufo_paint\<close>. "Solid-by-palette-index, or gradient referencing
  multiple palette indices plus stop offsets", alpha carried by the paint structure itself:
  a solid paint becomes the palette index of its opaque color and its alpha, a gradient one
  (stop offset, palette index, alpha) per color stop.
\<close>

datatype colr_paint =
    PaletteIndex nat
  | UfoSolid nat real
  | UfoGradient "(real \<times> nat \<times> real) list"

fun ufo_color_line :: "color list \<Rightarrow> (real \<times> color) list \<Rightarrow> error + (real \<times> nat \<times> real) list" where
  "ufo_color_line palette [] = Inr []"
| "ufo_color_line palette ((offset, c) # stops) =
     (case py_index palette (opaque c) of
        Inl e \<Rightarrow> Inl e
      | Inr i \<Rightarrow>
          (case ufo_color_line palette stops of
             Inl e \<Rightarrow> Inl e
           | Inr line \<Rightarrow> Inr ((offset, i, alpha c) # line)))"

fun to_ufo_paint :: "Paint \<Rightarrow> color list \<Rightarrow> error + colr_paint" where
  "to_ufo_paint (PaintSolid c) palette =
     (case py_index palette (opaque c) of
        Inl e \<Rightarrow> Inl e
      | Inr i \<Rightarrow> Inr (UfoSolid i (alpha c)))"
| "to_ufo_paint (PaintGradient stops) palette =
     (case ufo_color_line palette stops of
        Inl e \<Rightarrow> Inl e
      | Inr line \<Rightarrow> Inr (UfoGradient line))"

subsection \<open>Painted layers and color glyphs\<close>

text \<open>
  \<^verbatim>\<open>SVGPath\<close> (picosvg): the path description \<^verbatim>\<open>d\<close>, and the \<^verbatim>\<open>fill\<close> and \<^verbatim>\<open>id\<close> attributes
  its element carries, if any. \<^verbatim>\<open>PaintedLayer\<close> is the named tuple \<^verbatim>\<open>(paint, path, reuses)\<close>.
\<close>

record SVGPath =
  path_d :: string
  path_fill :: "string option"
  path_id :: "string option"

record PaintedLayer =
  paint :: Paint
  path :: SVGPath
  reuses :: "Affine2D list"

text \<open>A gradient definition of the artwork: its \<^verbatim>\<open>id\<close> attribute, if any, and its XML without the id.\<close>

record gradient =
  gradient_id :: "string option"
  gradient_xml :: string

text \<open>
  Modelled from the spec: \<^verbatim>\<open>ColorGlyph\<close> (of \<^verbatim>\<open>nanoemoji.color_glyph\<close>), which is not among the
  sources: glyph name, glyph id, codepoints, the artwork (of which the encoders read the
  gradient definitions), the transform from artwork units to font units, and the ordered
  sequence of painted layers, bottom to top (\<^verbatim>\<open>as_painted_layers()\<close>). \<^verbatim>\<open>colors()\<close> is every color
  of every painted layer's paint.
\<close>

record ColorGlyph =
  glyph_name :: string
  glyph_id :: nat
  codepoints :: "int list"
  picosvg_defs :: "gradient list"
  transform_for_font_space :: Affine2D
  as_painted_layers :: "PaintedLayer list"

definition colors :: "ColorGlyph \<Rightarrow> color list" where
  "colors g = concat (map (\<lambda>l. paint_colors (paint l)) (as_painted_layers g))"

text \<open>\<^verbatim>\<open>InputGlyph\<close>: the named tuple \<^verbatim>\<open>(filename, codepoints, picosvg)\<close>.\<close>

type_synonym InputGlyph = "string \<times> int list \<times> gradient list"

subsection \<open>The font: glyph objects and the glyph table\<close>

text \<open>
  \<^verbatim>\<open>ufoLib2.Font\<close>. Glyphs are mutable objects that the font's default layer holds by name and
  that the encoders also hold in their own tables, so the model is an explicit store:
  \<open>objects\<close> is the list of all Glyph objects made so far and a reference is a position in
  it; \<open>layer\<close> is the default layer's dictionary from glyph name to reference. What has been
  drawn into a glyph is the list of its \<open>contours\<close>: a path drawn through a transform
  (\<^verbatim>\<open>_draw\<close>), or the extents line of \<^verbatim>\<open>_draw_glyph_extents\<close>.
\<close>

record Component =
  baseGlyph :: string
  transformation :: Affine2D

datatype contour = DrawnPath string Affine2D | ExtentsLine int

record Glyph =
  name :: string
  width :: int
  unicodes :: "int list"
  components :: "Component list"
  contours :: "contour list"

type_synonym gref = nat

record ufo =
  objects :: "Glyph list"
  layer :: "string \<rightharpoonup> gref"
  glyphOrder :: "string list"
  familyName :: string
  unitsPerEm :: int
  keepGlyphNames :: bool
  colorPalettes :: "color list list option"
  colorLayers :: "(string \<rightharpoonup> (string \<times> colr_paint) list) option"
  features_text :: string

text \<open>\<^verbatim>\<open>Glyph(name)\<close>: a new blank glyph.\<close>

definition new_Glyph :: "string \<Rightarrow> Glyph" where
  "new_Glyph n = \<lparr>name = n, width = 0, unicodes = [], components = [], contours = []\<rparr>"

text \<open>\<^verbatim>\<open>name in ufo\<close>, \<^verbatim>\<open>ufo.get(name)\<close>, \<^verbatim>\<open>ufo[name]\<close>.\<close>

definition ufo_contains :: "ufo \<Rightarrow> string \<Rightarrow> bool" where
  "ufo_contains u n = (layer u n \<noteq> None)"

definition ufo_get :: "ufo \<Rightarrow> string \<Rightarrow> gref option" where
  "ufo_get u n = layer u n"

definition ufo_getitem :: "ufo \<Rightarrow> string \<Rightarrow> error + gref" where
  "ufo_getitem u n = (case layer u n of None \<Rightarrow> Inl (KeyError n) | Some r \<Rightarrow> Inr r)"

text \<open>\<^verbatim>\<open>ufo.newGlyph(name)\<close>: KeyError when the name is taken, else a new blank glyph.\<close>

definition newGlyph :: "ufo \<Rightarrow> string \<Rightarrow> error + gref \<times> ufo" where
  "newGlyph u n =
     (if layer u n \<noteq> None then Inl (KeyError n)
      else Inr (length (objects u),
                u\<lparr>objects := objects u @ [new_Glyph n],
                  layer := (layer u)(n \<mapsto> length (objects u))\<rparr>))"

text \<open>
  \<^verbatim>\<open>ufo[name] = glyph\<close>: ufoLib2 renames the glyph object to \<open>name\<close> and stores it under that
  name; the name it had before still leads to the same object.
\<close>

definition ufo_setitem :: "ufo \<Rightarrow> string \<Rightarrow> gref \<Rightarrow> ufo" where
  "ufo_setitem u n r =
     u\<lparr>objects := (objects u)[r := (objects u ! r)\<lparr>name := n\<rparr>],
       layer := (layer u)(n \<mapsto> r)\<rparr>"

text \<open>A change to the glyph object behind a reference.\<close>

definition update_glyph :: "gref \<Rightarrow> (Glyph \<Rightarrow> Glyph) \<Rightarrow> ufo \<Rightarrow> ufo" where
  "update_glyph r f u = u\<lparr>objects := (objects u)[r := f (objects u ! r)]\<rparr>"

definition append_component :: "gref \<Rightarrow> Component \<Rightarrow> ufo \<Rightarrow> ufo" where
  "append_component r c u = update_glyph r (\<lambda>g. g\<lparr>components := components g @ [c]\<rparr>) u"

text \<open>\<^verbatim>\<open>glyph.unicode = value\<close> (ufoLib2): \<open>value\<close> becomes the first of the glyph's unicodes.\<close>

definition set_unicode :: "int \<Rightarrow> Glyph \<Rightarrow> Glyph" where
  "set_unicode v g =
     (if unicodes g = [] then g\<lparr>unicodes := [v]\<rparr>
      else if hd (unicodes g) = v then g
      else g\<lparr>unicodes := v # remove1 v (unicodes g)\<rparr>)"

text \<open>\<^verbatim>\<open>_ufo\<close>: the initial font, with \<^verbatim>\<open>.notdef\<close> and a blank \<^verbatim>\<open>.space\<close> mapped to U+0020.\<close>

definition initial_ufo :: "string \<Rightarrow> int \<Rightarrow> bool \<Rightarrow> ufo" where
  "initial_ufo family upem keep_glyph_names =
     \<lparr>objects = [new_Glyph ''.notdef'', (new_Glyph ''.space'')\<lparr>width := upem, unicodes := [0x20]\<rparr>],
      layer = [''.notdef'' \<mapsto> 0, ''.space'' \<mapsto> 1],
      glyphOrder = [''.notdef'', ''.space''],
      familyName = family,
      unitsPerEm = upem,
      keepGlyphNames = keep_glyph_names,
      colorPalettes = None,
      colorLayers = None,
      features_text = []\<rparr>"

subsection \<open>Blank glyphs: \<^verbatim>\<open>_ensure_codepoints_will_have_glyphs\<close>\<close>

text \<open>The first loop: the sets \<^verbatim>\<open>all_codepoints\<close> and \<^verbatim>\<open>direct_mapped_codepoints\<close>.\<close>

fun codepoint_sets :: "InputGlyph list \<Rightarrow> int set \<times> int set \<Rightarrow> int set \<times> int set" where
  "codepoint_sets [] (all_codepoints, direct_mapped_codepoints) =
     (all_codepoints, direct_mapped_codepoints)"
| "codepoint_sets ((filename, cps, svg) # rest) (all_codepoints, direct_mapped_codepoints) =
     codepoint_sets rest
       (all_codepoints \<union> set cps,
        if length cps = 1 then direct_mapped_codepoints \<union> set cps
        else direct_mapped_codepoints)"

definition need_blanks :: "InputGlyph list \<Rightarrow> int set" where
  "need_blanks glyph_inputs =
     (case codepoint_sets glyph_inputs ({}, {}) of
        (all_codepoints, direct_mapped_codepoints) \<Rightarrow> all_codepoints - direct_mapped_codepoints)"

text \<open>
  The second loop, over the codepoints that need a blank: a new glyph named
  \<^verbatim>\<open>glyph_name(codepoint)\<close>, mapped to the codepoint; \<open>glyph_names\<close> collects the names.
\<close>

fun new_blanks :: "(int \<Rightarrow> string) \<Rightarrow> int list \<Rightarrow> ufo \<times> string list \<Rightarrow> error + ufo \<times> string list" where
  "new_blanks gn [] (u, glyph_names) = Inr (u, glyph_names)"
| "new_blanks gn (codepoint # rest) (u, glyph_names) =
     (case newGlyph u (gn codepoint) of
        Inl e \<Rightarrow> Inl e
      | Inr (g, u') \<Rightarrow>
          new_blanks gn rest
            (update_glyph g (set_unicode codepoint) u', glyph_names @ [name (objects u' ! g)]))"

text \<open>
  Python walks the set \<^verbatim>\<open>need_blanks\<close> in an order of its own; the model walks it in ascending
  order. The names are sorted before they reach the glyph order and the glyph table is
  keyed by name, so the order does not show in the result.
\<close>

definition ensure_codepoints_will_have_glyphs ::
  "(int \<Rightarrow> string) \<Rightarrow> ufo \<Rightarrow> InputGlyph list \<Rightarrow> error + ufo" where
  "ensure_codepoints_will_have_glyphs gn u glyph_inputs =
     (case new_blanks gn (sorted_list_of_set (need_blanks glyph_inputs)) (u, []) of
        Inl e \<Rightarrow> Inl e
      | Inr (u', glyph_names) \<Rightarrow> Inr (u'\<lparr>glyphOrder := glyphOrder u' @ sort glyph_names\<rparr>))"

subsection \<open>Outline glyphs: \<^verbatim>\<open>_next_name\<close>, \<^verbatim>\<open>_draw\<close>, \<^verbatim>\<open>_create_glyph\<close>\<close>

text \<open>
  The encoders below can raise and, through the \<^verbatim>\<open>while\<close> loop of \<^verbatim>\<open>_next_name\<close>, can fail to
  return: their result is \<open>None\<close> when the run does not return, \<open>Some (Inl e)\<close> when it
  raises \<open>e\<close>, and \<open>Some (Inr x)\<close> when it returns \<open>x\<close>.
\<close>

type_synonym 'a result = "(error + 'a) option"

text \<open>\<^verbatim>\<open>_next_name\<close>: the loop \<^verbatim>\<open>while name_fn(i) in ufo: i += 1\<close>, started at \<open>i\<close>.\<close>

partial_function (option) next_name_from :: "ufo \<Rightarrow> (nat \<Rightarrow> string) \<Rightarrow> nat \<Rightarrow> string option" where
  "next_name_from u name_fn i =
     (if ufo_contains u (name_fn i) then next_name_from u name_fn (Suc i)
      else Some (name_fn i))"

declare next_name_from.simps [code]

definition next_name :: "ufo \<Rightarrow> (nat \<Rightarrow> string) \<Rightarrow> string option" where
  "next_name u name_fn = next_name_from u name_fn 0"

text \<open>\<^verbatim>\<open>_draw\<close>: the path, through the transform, becomes a contour of the glyph \<open>dest\<close>.\<close>

definition draw :: "SVGPath \<Rightarrow> gref \<Rightarrow> Affine2D \<Rightarrow> ufo \<Rightarrow> ufo" where
  "draw source dest svg_units_to_font_units u =
     update_glyph dest
       (\<lambda>g. g\<lparr>contours := contours g @ [DrawnPath (path_d source) svg_units_to_font_units]\<rparr>) u"

text \<open>
  The component \<^verbatim>\<open>_create_glyph\<close> appends for one reuse transform: the translation is scaled
  by the x and y scale of the font-space transform.
\<close>

definition reuse_component :: "string \<Rightarrow> Affine2D \<Rightarrow> Affine2D \<Rightarrow> Component" where
  "reuse_component base_name svg_units_to_font_units t =
     \<lparr>baseGlyph = base_name,
      transformation =
        Affine2D (aff_a t) (aff_b t) (aff_c t) (aff_d t)
          (aff_e t * aff_a svg_units_to_font_units)
          (aff_f t * aff_d svg_units_to_font_units)\<rparr>"

text \<open>
  \<^verbatim>\<open>_create_glyph\<close>. The font of the color glyph (\<^verbatim>\<open>color_glyph.ufo\<close>) is the font the encoder
  works on. The result is the reference of the new glyph and the font after the call.
\<close>

definition create_glyph :: "ufo \<Rightarrow> ColorGlyph \<Rightarrow> PaintedLayer \<Rightarrow> (gref \<times> ufo) result" where
  "create_glyph u color_glyph painted_layer =
     (case next_name u (\<lambda>i. glyph_name color_glyph @ ''.'' @ str_nat i) of
        None \<Rightarrow> None
      | Some n \<Rightarrow>
          (case newGlyph u n of
             Inl e \<Rightarrow> Some (Inl e)
           | Inr (glyph, u1) \<Rightarrow>
               let u2 = update_glyph glyph (\<lambda>g. g\<lparr>width := unitsPerEm u1\<rparr>) u1;
                   svg_units_to_font_units = transform_for_font_space color_glyph
               in
               if reuses painted_layer \<noteq> [] then
                 (case next_name u2
                         (\<lambda>i. name (objects u2 ! glyph) @ ''.component.'' @ str_nat i) of
                    None \<Rightarrow> None
                  | Some bn \<Rightarrow>
                      (case newGlyph u2 bn of
                         Inl e \<Rightarrow> Some (Inl e)
                       | Inr (base_glyph, u3) \<Rightarrow>
                           let u4 = draw (path painted_layer) base_glyph svg_units_to_font_units u3;
                               u5 = append_component glyph
                                      \<lparr>baseGlyph = name (objects u4 ! base_glyph),
                                       transformation = identity\<rparr> u4;
                               u6 = fold (\<lambda>t. append_component glyph
                                            (reuse_component (name (objects u4 ! base_glyph))
                                               svg_units_to_font_units t))
                                      (reuses painted_layer) u5
                           in Some (Inr (glyph,
                                u6\<lparr>glyphOrder := glyphOrder u6
                                      @ [name (objects u1 ! glyph), name (objects u3 ! base_glyph)]\<rparr>))))
               else
                 let u3 = draw (path painted_layer) glyph svg_units_to_font_units u2
                 in Some (Inr (glyph,
                      u3\<lparr>glyphOrder := glyphOrder u3 @ [name (objects u1 ! glyph)]\<rparr>))))"

subsection \<open>The reuse key and the composite outline encoder: \<^verbatim>\<open>_glyf_ufo\<close>\<close>

type_synonym reuse_key = "string \<times> Affine2D list"

definition inter_glyph_reuse_key :: "PaintedLayer \<Rightarrow> reuse_key" where
  "inter_glyph_reuse_key painted_layer = (path_d (path painted_layer), reuses painted_layer)"

text \<open>
  The lines both \<^verbatim>\<open>_glyf_ufo\<close> and \<^verbatim>\<open>_colr_ufo\<close> run for a painted layer, with \<open>glyphs\<close> the
  dictionary "glyphs by reuse key":
  \<^verbatim>\<open>reuse_key = _inter_glyph_reuse_key(painted_layer)\<close>;
  \<^verbatim>\<open>if reuse_key not in glyphs: glyph = _create_glyph(...); glyphs[reuse_key] = glyph\<close>;
  \<^verbatim>\<open>else: glyph = glyphs[reuse_key]\<close>.
  The result is the glyph, the font and the dictionary after these lines.
\<close>

definition reuse_or_create ::
  "ufo \<Rightarrow> (reuse_key \<rightharpoonup> gref) \<Rightarrow> ColorGlyph \<Rightarrow> PaintedLayer
     \<Rightarrow> (gref \<times> ufo \<times> (reuse_key \<rightharpoonup> gref)) result" where
  "reuse_or_create u glyphs color_glyph painted_layer =
     (let reuse_key = inter_glyph_reuse_key painted_layer in
      case glyphs reuse_key of
        None \<Rightarrow>
          (case create_glyph u color_glyph painted_layer of
             None \<Rightarrow> None
           | Some (Inl e) \<Rightarrow> Some (Inl e)
           | Some (Inr (glyph, u1)) \<Rightarrow> Some (Inr (glyph, u1, glyphs(reuse_key \<mapsto> glyph))))
      | Some glyph \<Rightarrow> Some (Inr (glyph, u, glyphs)))"

text \<open>
  The inner loop of \<^verbatim>\<open>_glyf_ufo\<close> over the painted layers of one color glyph. \<open>parent_glyph\<close> is \<^verbatim>\<open>ufo.get(color_glyph.glyph_name)\<close>,
  \<open>None\<close> when the font has no such glyph (the append then raises AttributeError).
\<close>

fun glyf_layers ::
  "ColorGlyph \<Rightarrow> gref option \<Rightarrow> PaintedLayer list \<Rightarrow> ufo \<times> (reuse_key \<rightharpoonup> gref)
     \<Rightarrow> (ufo \<times> (reuse_key \<rightharpoonup> gref)) result" where
  "glyf_layers color_glyph parent_glyph [] (u, glyphs) = Some (Inr (u, glyphs))"
| "glyf_layers color_glyph parent_glyph (painted_layer # rest) (u, glyphs) =
     (case reuse_or_create u glyphs color_glyph painted_layer of
        None \<Rightarrow> None
      | Some (Inl e) \<Rightarrow> Some (Inl e)
      | Some (Inr (glyph, u1, glyphs1)) \<Rightarrow>
          (case parent_glyph of
             None \<Rightarrow> Some (Inl (AttributeError ''components''))
           | Some p \<Rightarrow>
               glyf_layers color_glyph parent_glyph rest
                 (append_component p
                    \<lparr>baseGlyph = name (objects u1 ! glyph), transformation = identity\<rparr> u1,
                  glyphs1)))"

text \<open>
  One round of the outer loop: the layers of the color glyph, then the collapse of a parent
  with exactly one component, \<^verbatim>\<open>ufo[color_glyph.glyph_name] = ufo[components[0].baseGlyph]\<close>.
\<close>

definition glyf_color_glyph ::
  "ColorGlyph \<Rightarrow> ufo \<times> (reuse_key \<rightharpoonup> gref) \<Rightarrow> (ufo \<times> (reuse_key \<rightharpoonup> gref)) result" where
  "glyf_color_glyph color_glyph s =
     (let parent_glyph = ufo_get (fst s) (glyph_name color_glyph) in
      case glyf_layers color_glyph parent_glyph (as_painted_layers color_glyph) s of
        None \<Rightarrow> None
      | Some (Inl e) \<Rightarrow> Some (Inl e)
      | Some (Inr (u1, glyphs1)) \<Rightarrow>
          (case parent_glyph of
             None \<Rightarrow> Some (Inl (AttributeError ''components''))
           | Some p \<Rightarrow>
               if length (components (objects u1 ! p)) = 1 then
                 (case ufo_getitem u1 (baseGlyph (components (objects u1 ! p) ! 0)) of
                    Inl e \<Rightarrow> Some (Inl e)
                  | Inr child \<Rightarrow> Some (Inr (ufo_setitem u1 (glyph_name color_glyph) child, glyphs1)))
               else Some (Inr (u1, glyphs1))))"

fun glyf_color_glyphs ::
  "ColorGlyph list \<Rightarrow> ufo \<times> (reuse_key \<rightharpoonup> gref) \<Rightarrow> (ufo \<times> (reuse_key \<rightharpoonup> gref)) result" where
  "glyf_color_glyphs [] s = Some (Inr s)"
| "glyf_color_glyphs (color_glyph # rest) s =
     (case glyf_color_glyph color_glyph s of
        None \<Rightarrow> None
      | Some (Inl e) \<Rightarrow> Some (Inl e)
      | Some (Inr s1) \<Rightarrow> glyf_color_glyphs rest s1)"

definition glyf_ufo :: "ufo \<Rightarrow> ColorGlyph list \<Rightarrow> ufo result" where
  "glyf_ufo u color_glyphs =
     (case glyf_color_glyphs color_glyphs (u, Map.empty) of
        None \<Rightarrow> None
      | Some (Inl e) \<Rightarrow> Some (Inl e)
      | Some (Inr (u1, glyphs)) \<Rightarrow> Some (Inr u1))"

subsection \<open>The palette-layered encoder: \<^verbatim>\<open>_colr_paint\<close>, \<^verbatim>\<open>_colr_ufo\<close>\<close>

definition colr_paint :: "int \<Rightarrow> Paint \<Rightarrow> color list \<Rightarrow> error + colr_paint" where
  "colr_paint colr_version p palette =
     (if colr_version = 0 then
        (case paint_colors p of
           [] \<Rightarrow> Inl StopIteration
         | c # cs \<Rightarrow>
             (case py_index palette c of
                Inl e \<Rightarrow> Inl e
              | Inr i \<Rightarrow> Inr (PaletteIndex i)))
      else if colr_version = 1 then to_ufo_paint p palette
      else Inl (ValueError (''Unsupported COLR version: '' @ str_int colr_version)))"

text \<open>
  The palette: \<^verbatim>\<open>sorted(set(c if colr_version == 0 else c.opaque() for c in ...))\<close> over the
  colors of all the color glyphs.
\<close>

definition colr_colors :: "int \<Rightarrow> ColorGlyph list \<Rightarrow> color list" where
  "colr_colors colr_version color_glyphs =
     sorted_list_of_set
       (set (map (\<lambda>c. if colr_version = 0 then c else opaque c)
               (concat (map colors color_glyphs))))"

text \<open>
  Modelled from the spec: \<^verbatim>\<open>Color.to_ufo_color\<close>, the palette entry of a color in the font
  container's representation. The model keeps the color as it is.
\<close>

definition to_ufo_color :: "color \<Rightarrow> color" where
  "to_ufo_color c = c"

text \<open>\<^verbatim>\<open>_draw_glyph_extents\<close>: a line from the origin to (units per em, units per em).\<close>

definition draw_glyph_extents :: "gref \<Rightarrow> ufo \<Rightarrow> ufo" where
  "draw_glyph_extents glyph u =
     update_glyph glyph (\<lambda>g. g\<lparr>contours := contours g @ [ExtentsLine (unitsPerEm u)]\<rparr>) u"

text \<open>
  The inner loop of \<^verbatim>\<open>_colr_ufo\<close>: \<open>glyph_colr_layers\<close> collects (glyph name, paint) in z-order.
\<close>

fun colr_layers ::
  "int \<Rightarrow> color list \<Rightarrow> ColorGlyph \<Rightarrow> PaintedLayer list
     \<Rightarrow> ufo \<times> (reuse_key \<rightharpoonup> gref) \<times> (string \<times> colr_paint) list
     \<Rightarrow> (ufo \<times> (reuse_key \<rightharpoonup> gref) \<times> (string \<times> colr_paint) list) result" where
  "colr_layers colr_version palette color_glyph [] (u, glyphs, glyph_colr_layers) =
     Some (Inr (u, glyphs, glyph_colr_layers))"
| "colr_layers colr_version palette color_glyph (painted_layer # rest) (u, glyphs, glyph_colr_layers) =
     (case reuse_or_create u glyphs color_glyph painted_layer of
        None \<Rightarrow> None
      | Some (Inl e) \<Rightarrow> Some (Inl e)
      | Some (Inr (glyph, u1, glyphs1)) \<Rightarrow>
          (case colr_paint colr_version (paint painted_layer) palette of
             Inl e \<Rightarrow> Some (Inl e)
           | Inr p \<Rightarrow>
               colr_layers colr_version palette color_glyph rest
                 (u1, glyphs1, glyph_colr_layers @ [(name (objects u1 ! glyph), p)])))"

text \<open>
  One round of the outer loop; \<open>color_layers\<close> maps each base glyph to its list of layers.
\<close>

definition colr_color_glyph ::
  "int \<Rightarrow> color list \<Rightarrow> ColorGlyph
     \<Rightarrow> ufo \<times> (reuse_key \<rightharpoonup> gref) \<times> (string \<rightharpoonup> (string \<times> colr_paint) list)
     \<Rightarrow> (ufo \<times> (reuse_key \<rightharpoonup> gref) \<times> (string \<rightharpoonup> (string \<times> colr_paint) list)) result" where
  "colr_color_glyph colr_version palette color_glyph s =
     (case s of (u, glyphs, color_layers) \<Rightarrow>
      case colr_layers colr_version palette color_glyph (as_painted_layers color_glyph)
             (u, glyphs, []) of
        None \<Rightarrow> None
      | Some (Inl e) \<Rightarrow> Some (Inl e)
      | Some (Inr (u1, glyphs1, glyph_colr_layers)) \<Rightarrow>
          (case ufo_get u1 (glyph_name color_glyph) of
             None \<Rightarrow> Some (Inl (AttributeError ''getPen''))
           | Some colr_glyph \<Rightarrow>
               let u2 = draw_glyph_extents colr_glyph u1 in
               Some (Inr (u2, glyphs1,
                          color_layers(name (objects u2 ! colr_glyph) \<mapsto> glyph_colr_layers)))))"

fun colr_color_glyphs ::
  "int \<Rightarrow> color list \<Rightarrow> ColorGlyph list
     \<Rightarrow> ufo \<times> (reuse_key \<rightharpoonup> gref) \<times> (string \<rightharpoonup> (string \<times> colr_paint) list)
     \<Rightarrow> (ufo \<times> (reuse_key \<rightharpoonup> gref) \<times> (string \<rightharpoonup> (string \<times> colr_paint) list)) result" where
  "colr_color_glyphs colr_version palette [] s = Some (Inr s)"
| "colr_color_glyphs colr_version palette (color_glyph # rest) s =
     (case colr_color_glyph colr_version palette color_glyph s of
        None \<Rightarrow> None
      | Some (Inl e) \<Rightarrow> Some (Inl e)
      | Some (Inr s1) \<Rightarrow> colr_color_glyphs colr_version palette rest s1)"

text \<open>
  The encoder once the palette \<open>palette\<close> is computed: the palette goes into the font, the
  loop runs, the color layers go into the font.
\<close>

definition colr_encode :: "int \<Rightarrow> color list \<Rightarrow> ufo \<Rightarrow> ColorGlyph list \<Rightarrow> ufo result" where
  "colr_encode colr_version palette u color_glyphs =
     (case colr_color_glyphs colr_version palette color_glyphs
             (u\<lparr>colorPalettes := Some [map to_ufo_color palette]\<rparr>, Map.empty, Map.empty) of
        None \<Rightarrow> None
      | Some (Inl e) \<Rightarrow> Some (Inl e)
      | Some (Inr (u1, glyphs, color_layers)) \<Rightarrow> Some (Inr (u1\<lparr>colorLayers := Some color_layers\<rparr>)))"

definition colr_ufo :: "int \<Rightarrow> ufo \<Rightarrow> ColorGlyph list \<Rightarrow> ufo result" where
  "colr_ufo colr_version u color_glyphs =
     colr_encode colr_version (colr_colors colr_version color_glyphs) u color_glyphs"

text \<open>
  The one place where \<^verbatim>\<open>_colr_ufo\<close> meets an order that Python does not fix is
  \<^verbatim>\<open>sorted(set(...))\<close>: \<^verbatim>\<open>sorted\<close> walks the set of colors in the order the set yields them.
  \<open>set_walk e colr_version color_glyphs\<close> says that \<open>e\<close> is such a walk, every color of the set
  once; \<open>colr_ufo_walk e\<close> is the run of the encoder in which the set is walked in the order
  \<open>e\<close>.
\<close>

definition set_walk :: "color list \<Rightarrow> int \<Rightarrow> ColorGlyph list \<Rightarrow> bool" where
  "set_walk e colr_version color_glyphs =
     (distinct e
      \<and> set e = set (map (\<lambda>c. if colr_version = 0 then c else opaque c)
                       (concat (map colors color_glyphs))))"

definition colr_ufo_walk :: "color list \<Rightarrow> int \<Rightarrow> ufo \<Rightarrow> ColorGlyph list \<Rightarrow> ufo result" where
  "colr_ufo_walk e colr_version u color_glyphs =
     colr_encode colr_version (sort e) u color_glyphs"

subsection \<open>Example glyphs\<close>

text \<open>
  Two color glyphs for the closed examples: a face with a red disc, drawn twice, under a
  blue to half-transparent green gradient, and a second glyph that shows the same disc in
  blue.
\<close>

definition example_disc :: SVGPath where
  "example_disc = \<lparr>path_d = ''M2,2 A1,1 0 1 1 2,4 Z'', path_fill = None, path_id = None\<rparr>"

definition example_face :: ColorGlyph where
  "example_face =
     \<lparr>glyph_name = ''emoji_1f600'', glyph_id = 2, codepoints = [0x1F600], picosvg_defs = [],
      transform_for_font_space = Affine2D 8 0 0 (-8) 0 1024,
      as_painted_layers =
        [\<lparr>paint = PaintGradient [(0, (0, 0, 255, 1)), (1, (0, 255, 0, 1/2))],
          path = \<lparr>path_d = ''M0,0 L8,0 L8,8 Z'', path_fill = None, path_id = None\<rparr>, reuses = []\<rparr>,
         \<lparr>paint = PaintSolid (255, 0, 0, 1), path = example_disc,
          reuses = [Affine2D 1 0 0 1 4 0]\<rparr>]\<rparr>"

definition example_moon :: ColorGlyph where
  "example_moon =
     \<lparr>glyph_name = ''emoji_1f31a'', glyph_id = 3, codepoints = [0x1F31A], picosvg_defs = [],
      transform_for_font_space = Affine2D 8 0 0 (-8) 0 1024,
      as_painted_layers =
        [\<lparr>paint = PaintSolid (0, 0, 255, 1), path = example_disc,
          reuses = [Affine2D 1 0 0 1 4 0]\<rparr>]\<rparr>"

text \<open>
  The font the encoders meet for the two example glyphs: the initial font with one blank
  glyph per color glyph.
\<close>

definition example_ufo :: ufo where
  "example_ufo =
     (initial_ufo ''An Emoji Family'' 1024 False)
       \<lparr>objects := [new_Glyph ''.notdef'',
                    (new_Glyph ''.space'')\<lparr>width := 1024, unicodes := [0x20]\<rparr>,
                    (new_Glyph ''emoji_1f600'')\<lparr>width := 1024, unicodes := [0x1F600]\<rparr>,
                    (new_Glyph ''emoji_1f31a'')\<lparr>width := 1024, unicodes := [0x1F31A]\<rparr>],
        layer := [''.notdef'' \<mapsto> 0, ''.space'' \<mapsto> 1, ''emoji_1f600'' \<mapsto> 2,
                  ''emoji_1f31a'' \<mapsto> 3],
        glyphOrder := [''.notdef'', ''.space'', ''emoji_1f600'', ''emoji_1f31a'']\<rparr>"

subsection \<open>Notions for the statements about shape reuse\<close>

text \<open>
  The number of glyph objects \<^verbatim>\<open>_create_glyph\<close> makes for a layer with a given reuse key: one
  outline glyph, and a second "base" glyph when the layer records reuses.
\<close>

definition outline_cost :: "reuse_key \<Rightarrow> nat" where
  "outline_cost k = (if snd k = [] then 1 else 2)"

text \<open>The reuse keys of all layers of all color glyphs of a list.\<close>

definition reuse_keys :: "ColorGlyph list \<Rightarrow> reuse_key set" where
  "reuse_keys color_glyphs =
     inter_glyph_reuse_key ` (\<Union>g \<in> set color_glyphs. set (as_painted_layers g))"

text \<open>
  What \<^verbatim>\<open>ColorGlyph.create\<close> leaves in the font for the color glyphs of a list, as the encoders
  find it: the glyph names are distinct, and the font holds under each name a glyph object
  of that name with no components yet.
\<close>

definition fresh_color_glyphs :: "ufo \<Rightarrow> ColorGlyph list \<Rightarrow> bool" where
  "fresh_color_glyphs u color_glyphs =
     (distinct (map glyph_name color_glyphs)
      \<and> list_all (\<lambda>g. case layer u (glyph_name g) of
                         None \<Rightarrow> False
                       | Some p \<Rightarrow> p < length (objects u)
                                   \<and> name (objects u ! p) = glyph_name g
                                   \<and> components (objects u ! p) = []) color_glyphs)"

text \<open>
  The glyph object that stands for layer \<open>i\<close> of a color glyph in a font the composite
  outline encoder has returned: for a glyph with one layer, collapsed into its component,
  the object the font holds under the color glyph's own name; otherwise the object that the
  base glyph name of the parent's component \<open>i\<close> leads to.
\<close>

definition glyf_outline :: "ufo \<Rightarrow> ColorGlyph \<Rightarrow> nat \<Rightarrow> gref option" where
  "glyf_outline u g i =
     (if length (as_painted_layers g) = 1 then layer u (glyph_name g)
      else case layer u (glyph_name g) of
             None \<Rightarrow> None
           | Some p \<Rightarrow> layer u (baseGlyph (components (objects u ! p) ! i)))"

text \<open>
  The glyph object that stands for layer \<open>i\<close> of a color glyph in a font the palette-layered
  encoder has returned: the object that the glyph name of entry \<open>i\<close> of the color glyph's
  layer list leads to.
\<close>

definition colr_outline :: "ufo \<Rightarrow> ColorGlyph \<Rightarrow> nat \<Rightarrow> gref option" where
  "colr_outline u g i =
     (case colorLayers u of
        None \<Rightarrow> None
      | Some color_layers \<Rightarrow>
          (case color_layers (glyph_name g) of
             None \<Rightarrow> None
           | Some glyph_colr_layers \<Rightarrow> layer u (fst (glyph_colr_layers ! i))))"

text \<open>
  Every glyph of the dictionary "glyphs by reuse key" is an object of the font, and the font
  holds it under the name it has.
\<close>

definition glyphs_ok :: "ufo \<Rightarrow> (reuse_key \<rightharpoonup> gref) \<Rightarrow> bool" where
  "glyphs_ok u glyphs =
     (\<forall>k r. glyphs k = Some r \<longrightarrow> r < length (objects u) \<and> layer u (name (objects u ! r)) = Some r)"

text \<open>
  A later font keeps what an earlier font has: its objects, each under the name it had, and
  what its names lead to.
\<close>

definition font_grows :: "ufo \<Rightarrow> ufo \<Rightarrow> bool" where
  "font_grows u u' =
     (length (objects u) \<le> length (objects u')
      \<and> (\<forall>r < length (objects u). name (objects u' ! r) = name (objects u ! r))
      \<and> (\<forall>m. layer u m \<noteq> None \<longrightarrow> layer u' m = layer u m))"

text \<open>
  The invariants of the composite outline encoder. \<open>n0\<close> is the number of glyph objects the
  font had when the encoder started; \<open>names\<close> are the names of the color glyphs not yet
  encoded; \<open>glyphs\<close> is the dictionary "glyphs by reuse key".

  Every glyph of the dictionary was made by the encoder, the font holds it under the name
  it has, and that name is not the name of a color glyph still to be encoded.
\<close>

definition outlines_ok :: "nat \<Rightarrow> ufo \<Rightarrow> (reuse_key \<rightharpoonup> gref) \<Rightarrow> string set \<Rightarrow> bool" where
  "outlines_ok n0 u glyphs names =
     (\<forall>k r. glyphs k = Some r \<longrightarrow>
        n0 \<le> r \<and> r < length (objects u) \<and> layer u (name (objects u ! r)) = Some r
        \<and> name (objects u ! r) \<notin> names)"

text \<open>A color glyph still to be encoded has its own glyph object, without components.\<close>

definition glyf_todo_ok :: "nat \<Rightarrow> ufo \<Rightarrow> ColorGlyph \<Rightarrow> bool" where
  "glyf_todo_ok n0 u g =
     (\<exists>p. layer u (glyph_name g) = Some p \<and> p < n0 \<and> p < length (objects u)
          \<and> name (objects u ! p) = glyph_name g \<and> components (objects u ! p) = [])"

text \<open>
  An encoded color glyph: with exactly one layer, the font holds that layer's outline glyph
  under the color glyph's name; otherwise the color glyph keeps its own object, with one
  component per layer, whose base glyph name leads to the layer's outline glyph and is not
  the name of a color glyph still to be encoded.
\<close>

definition glyf_done_ok ::
  "nat \<Rightarrow> ufo \<Rightarrow> (reuse_key \<rightharpoonup> gref) \<Rightarrow> string set \<Rightarrow> ColorGlyph \<Rightarrow> bool" where
  "glyf_done_ok n0 u glyphs names g =
     (if length (as_painted_layers g) = 1
      then layer u (glyph_name g) = glyphs (inter_glyph_reuse_key (as_painted_layers g ! 0))
           \<and> glyphs (inter_glyph_reuse_key (as_painted_layers g ! 0)) \<noteq> None
      else (\<exists>p. layer u (glyph_name g) = Some p \<and> p < n0 \<and> p < length (objects u)
              \<and> name (objects u ! p) = glyph_name g
              \<and> length (components (objects u ! p)) = length (as_painted_layers g)
              \<and> (\<forall>i < length (as_painted_layers g).
                    layer u (baseGlyph (components (objects u ! p) ! i))
                      = glyphs (inter_glyph_reuse_key (as_painted_layers g ! i))
                    \<and> glyphs (inter_glyph_reuse_key (as_painted_layers g ! i)) \<noteq> None
                    \<and> baseGlyph (components (objects u ! p) ! i) \<notin> names)))"

text \<open>
  Every painted layer of every color glyph of the list has a paint that mentions a color:
  under version 0 \<^verbatim>\<open>next(paint.colors())\<close> raises StopIteration for a paint that mentions
  none.
\<close>

definition paints_have_colors :: "ColorGlyph list \<Rightarrow> bool" where
  "paints_have_colors color_glyphs =
     list_all (\<lambda>g. list_all (\<lambda>l. paint_colors (paint l) \<noteq> []) (as_painted_layers g)) color_glyphs"

subsection \<open>Disjoint sets of glyph names\<close>







subsection \<open>The embedded-document encoder: \<^verbatim>\<open>_svg_glyph_groups\<close>\<close>




subsection \<open>The embedded-document encoder: documents\<close>

text \<open>
  An element of a document, with the attributes the encoder reads or writes (an attribute
  that is absent is \<open>None\<close>). The offsets \<open>x\<close> and \<open>y\<close> hold the number that \<^verbatim>\<open>ntos\<close> writes.
  A glyph's group \<^verbatim>\<open>g\<close> has an id and its child elements in order; an element of a group
  is referred to by its position among the children. A document has the children of its
  \<^verbatim>\<open>defs\<close> and its groups.
\<close>

record element =
  tag :: string
  attrib_id :: "string option"
  attrib_d :: "string option"
  attrib_fill :: "string option"
  attrib_href :: "string option"
  attrib_x :: "real option"
  attrib_y :: "real option"

definition Element :: "string \<Rightarrow> element" where
  "Element t =
     \<lparr>tag = t, attrib_id = None, attrib_d = None, attrib_fill = None, attrib_href = None,
      attrib_x = None, attrib_y = None\<rparr>"

record svg_g =
  g_id :: string
  children :: "element list"

record SVG =
  svg_defs :: "gradient list"
  svg_groups :: "svg_g list"

text \<open>\<^verbatim>\<open>to_element\<close> (picosvg): the element of a path.\<close>

definition to_element :: "SVGPath \<Rightarrow> element" where
  "to_element p =
     (Element ''path'')
       \<lparr>attrib_id := path_id p, attrib_d := Some (path_d p), attrib_fill := path_fill p\<rparr>"

text \<open>
  \<^verbatim>\<open>_ensure_has_id(el)\<close> for the child at position \<open>el\<close> of the group: the number of previous
  siblings of a child is its position.
\<close>

definition ensure_has_id :: "nat \<Rightarrow> svg_g \<Rightarrow> svg_g" where
  "ensure_has_id el g =
     (if el < length (children g) then
        (case attrib_id (children g ! el) of
           Some i \<Rightarrow> g
         | None \<Rightarrow>
             g\<lparr>children :=
                 (children g)
                   [el := (children g ! el)\<lparr>attrib_id := Some (g_id g @ ''::'' @ str_nat el)\<rparr>]\<rparr>)
      else g)"

text \<open>
  The keys of \<^verbatim>\<open>id_updates\<close> are gradient ids (strings) and the XML of gradients without their
  id (bytes).
\<close>

datatype id_key = IdKey string | XmlKey string



text \<open>
  The match of the regular expression \<^verbatim>\<open>url\(#([^)]+)*\)\<close> at the start of a fill: \<open>None\<close> when
  it does not match, otherwise group 1, which is unset (\<open>None\<close>) when nothing stands between
  \<^verbatim>\<open>#\<close> and the closing parenthesis.
\<close>

definition match_url :: "string \<Rightarrow> string option option" where
  "match_url fill =
     (if take 5 fill = ''url(#'' then
        (let rest = drop 5 fill; run = takeWhile (\<lambda>c. c \<noteq> CHR 0x29) rest in
         if length run < length rest then Some (if run = [] then None else Some run) else None)
      else None)"

definition update_fill :: "(id_key \<rightharpoonup> string) \<Rightarrow> element \<Rightarrow> element" where
  "update_fill id_updates el =
     (case match_url (case attrib_fill el of None \<Rightarrow> [] | Some fill \<Rightarrow> fill) of
        None \<Rightarrow> el
      | Some None \<Rightarrow> el\<lparr>attrib_fill := Some ''url(#None)''\<rparr>
      | Some (Some i) \<Rightarrow>
          el\<lparr>attrib_fill :=
               Some (''url(#'' @ (case id_updates (IdKey i) of None \<Rightarrow> i | Some j \<Rightarrow> j) @ [CHR 0x29])\<rparr>)"

text \<open>
  The loop of \<^verbatim>\<open>_add_glyph_to_svg\<close> over the reuses of a painted layer whose path element is
  the child at position \<open>el\<close>.
\<close>

fun add_reuses :: "nat \<Rightarrow> Affine2D list \<Rightarrow> svg_g \<Rightarrow> error + svg_g" where
  "add_reuses el [] g = Inr g"
| "add_reuses el (reuse # rest) g =
     (let g1 = ensure_has_id el g in
      case attrib_id (children g1 ! el) of
        None \<Rightarrow> Inl (KeyError ''id'')
      | Some i \<Rightarrow>
          (let (tx, ty) = gettranslate reuse;
               svg_use =
                 (Element ''use'')
                   \<lparr>attrib_href := Some (CHR ''#'' # i),
                    attrib_x := (if tx \<noteq> 0 then Some tx else None),
                    attrib_y := (if ty \<noteq> 0 then Some ty else None)\<rparr>;
               g2 = g1\<lparr>children := children g1 @ [svg_use]\<rparr>;
               transform = translate reuse (- tx) (- ty)
           in if transform \<noteq> identity then
                Inl (NotImplementedError ''TODO apply scale & rotation to use'')
              else add_reuses el rest g2))"

text \<open>
  The loop of \<^verbatim>\<open>_add_glyph_to_svg\<close> over the painted layers; \<open>glyphs\<close> is the dictionary, local
  to the glyph, from reuse key to the element made for it.
\<close>

fun add_layers ::
  "(id_key \<rightharpoonup> string) \<Rightarrow> PaintedLayer list \<Rightarrow> svg_g \<times> (reuse_key \<rightharpoonup> nat)
     \<Rightarrow> error + svg_g" where
  "add_layers id_updates [] (g, glyphs) = Inr g"
| "add_layers id_updates (painted_layer # rest) (g, glyphs) =
     (let reuse_key = inter_glyph_reuse_key painted_layer in
      case glyphs reuse_key of
        None \<Rightarrow>
          (let el = length (children g);
               g1 = g\<lparr>children := children g @ [update_fill id_updates (to_element (path painted_layer))]\<rparr>
           in case add_reuses el (reuses painted_layer) g1 of
                Inl e \<Rightarrow> Inl e
              | Inr g2 \<Rightarrow> add_layers id_updates rest (g2, glyphs(reuse_key \<mapsto> el)))
      | Some el \<Rightarrow>
          (let g1 = ensure_has_id el g in
           case attrib_id (children g1 ! el) of
             None \<Rightarrow> Inl (KeyError ''id'')
           | Some i \<Rightarrow>
               add_layers id_updates rest
                 (g1\<lparr>children :=
                      children g1 @ [(Element ''use'')\<lparr>attrib_href := Some (CHR ''#'' # i)\<rparr>]\<rparr>,
                  glyphs)))"

definition add_glyph_to_svg :: "SVG \<Rightarrow> ColorGlyph \<Rightarrow> (id_key \<rightharpoonup> string) \<Rightarrow> error + SVG" where
  "add_glyph_to_svg svg color_glyph id_updates =
     (case add_layers id_updates (as_painted_layers color_glyph)
             (\<lparr>g_id = glyph_name color_glyph, children = []\<rparr>, Map.empty) of
        Inl e \<Rightarrow> Inl e
      | Inr g \<Rightarrow> Inr (svg\<lparr>svg_groups := svg_groups svg @ [g]\<rparr>))"

subsection \<open>The embedded-document encoder: \<^verbatim>\<open>_svg_update_glyph_order\<close>, \<^verbatim>\<open>_svg_ttfont\<close>\<close>















subsection \<open>The color formats: \<^verbatim>\<open>_COLOR_FORMAT_GENERATORS\<close>\<close>




subsection \<open>Examples for the embedded-document encoder\<close>

text \<open>
  A third color glyph, a sun whose triangle is filled with a gradient of its own, and the
  compiled font of the face, the sun and the moon, in this order. The face and the moon
  share a reuse key, the sun shares none.
\<close>

definition example_sun :: ColorGlyph where
  "example_sun =
     \<lparr>glyph_name = ''emoji_2600'', glyph_id = 3, codepoints = [0x2600],
      picosvg_defs = [\<lparr>gradient_id = Some ''g1'', gradient_xml = ''<linearGradient/>''\<rparr>],
      transform_for_font_space = Affine2D 8 0 0 (-8) 0 1024,
      as_painted_layers =
        [\<lparr>paint = PaintSolid (255, 255, 0, 1),
          path = \<lparr>path_d = ''M1,1 L7,1 L4,7 Z'', path_fill = Some ''url(#g1)'', path_id = None\<rparr>,
          reuses = []\<rparr>]\<rparr>"


text \<open>
  A color glyph that shows the same triangle, at its place and 5 units to the right, first
  in red and then in blue: two painted layers with the same path and the same reuses.
\<close>

definition example_two_tone :: ColorGlyph where
  "example_two_tone =
     \<lparr>glyph_name = ''emoji_2b1b'', glyph_id = 2, codepoints = [0x2B1B], picosvg_defs = [],
      transform_for_font_space = Affine2D 8 0 0 (-8) 0 1024,
      as_painted_layers =
        [\<lparr>paint = PaintSolid (255, 0, 0, 1),
          path = \<lparr>path_d = ''M0,0 L1,0 L1,1 Z'', path_fill = Some ''red'', path_id = None\<rparr>,
          reuses = [Affine2D 1 0 0 1 5 0]\<rparr>,
         \<lparr>paint = PaintSolid (0, 0, 255, 1),
          path = \<lparr>path_d = ''M0,0 L1,0 L1,1 Z'', path_fill = Some ''blue'', path_id = None\<rparr>,
          reuses = [Affine2D 1 0 0 1 5 0]\<rparr>]\<rparr>"

subsection \<open>Notions for the statements about back-references\<close>

text \<open>
  A reuse transform is a pure translation when its linear part is the identity. The
  back-reference that carries exactly the offset of a reuse: a \<^verbatim>\<open>use\<close> element that refers to
  the element with id \<open>i\<close> and has the translation of the reuse as its \<open>x\<close> and \<open>y\<close> (an offset
  of zero is left out, which means zero).
\<close>

definition pure_translation :: "Affine2D \<Rightarrow> bool" where
  "pure_translation r = (aff_a r = 1 \<and> aff_b r = 0 \<and> aff_c r = 0 \<and> aff_d r = 1)"

definition use_with_offset :: "string \<Rightarrow> Affine2D \<Rightarrow> element" where
  "use_with_offset i r =
     (Element ''use'')
       \<lparr>attrib_href := Some (CHR ''#'' # i),
        attrib_x := (if aff_e r \<noteq> 0 then Some (aff_e r) else None),
        attrib_y := (if aff_f r \<noteq> 0 then Some (aff_f r) else None)\<rparr>"

section \<open>Theorems\<close>

subsection \<open>Ligature rules\<close>

lemma fea_loop_filter:
  "fea_loop gn ps rules = rules @ map (sub_rule gn) (filter (\<lambda>p. length (fst p) \<noteq> 1) ps)"
  by (induction gn ps rules rule: fea_loop.induct) (simp_all add: sub_rule_def)

text \<open>
  C7. For every list of (codepoint sequence, target glyph name) pairs whose sequences are
  not empty (a codepoint sequence is one or more codepoints), the feature text is the fixed
  script and language boilerplate, then one substitution rule for every pair whose sequence
  is longer than 1, in the sorted order of the pairs, and no rule for a single-codepoint
  sequence, then the closing line; the lines are joined by newlines.
\<close>

theorem generate_fea_rules_of_sequences:
  assumes "\<forall>p \<in> set rgi_sequences. fst p \<noteq> []"
  shows "generate_fea gn rgi_sequences =
           join [CHR 0x0A]
             ([''languagesystem DFLT dflt;'', ''languagesystem latn dflt;'', ''feature rlig {'']
              @ map (sub_rule gn) (filter (\<lambda>p. 1 < length (fst p)) (sort rgi_sequences))
              @ [''} rlig;''])"
proof -
  have "filter (\<lambda>p. length (fst p) \<noteq> 1) (sort rgi_sequences)
          = filter (\<lambda>p. 1 < length (fst p)) (sort rgi_sequences)"
  proof (rule filter_cong [OF refl])
    fix p assume "p \<in> set (sort rgi_sequences)"
    then have "fst p \<noteq> []" using assms by simp
    then have "length (fst p) \<noteq> 0" by simp
    then show "(length (fst p) \<noteq> 1) = (1 < length (fst p))" by arith
  qed
  then show ?thesis
    by (simp add: generate_fea_def generate_fea_rules_def fea_loop_filter)
qed

theorem generate_fea_rules_of_sequences_witness:
  "generate_fea emoji_glyph_name
       [([0x1F468, 0x200D, 0x1F4BB], ''g1''), ([0x1F600], ''g0''), ([0x1F3F3, 0x1F308], ''g2'')]
     = join [CHR 0x0A]
         [''languagesystem DFLT dflt;'', ''languagesystem latn dflt;'', ''feature rlig {'',
          ''  sub emoji_1f3f3 emoji_1f308 by g2;'',
          ''  sub emoji_1f468 emoji_200d emoji_1f4bb by g1;'',
          ''} rlig;'']"
proof -
  let ?in = "[([0x1F468, 0x200D, 0x1F4BB], ''g1''), ([0x1F600], ''g0''),
              ([0x1F3F3, 0x1F308], ''g2'')] :: (int list \<times> string) list"
  have h: "\<forall>p \<in> set ?in. fst p \<noteq> []" by simp
  have s: "sort ?in = [([0x1F3F3, 0x1F308], ''g2''), ([0x1F468, 0x200D, 0x1F4BB], ''g1''),
                       ([0x1F600], ''g0'')]"
    by code_simp
  show ?thesis
    using generate_fea_rules_of_sequences [OF h, of emoji_glyph_name]
    by (simp add: s sub_rule_def emoji_glyph_name_def hex.simps hex_digit_def)
qed

subsection \<open>Blank glyphs\<close>

lemma codepoint_sets_eq:
  "codepoint_sets inputs (A, D) =
     (A \<union> {c. \<exists>i \<in> set inputs. c \<in> set (fst (snd i))},
      D \<union> {c. \<exists>i \<in> set inputs. fst (snd i) = [c]})"
proof (induction inputs arbitrary: A D)
  case Nil
  then show ?case by simp
next
  case (Cons i inputs)
  obtain fn cps svg where i: "i = (fn, cps, svg)" by (cases i) auto
  have single: "length cps = 1 \<Longrightarrow> set cps = {c. cps = [c]}"
    by (cases cps) auto
  have nonsingle: "length cps \<noteq> 1 \<Longrightarrow> {c. cps = [c]} = {}"
    by auto
  show ?case
    unfolding i using single nonsingle
    by (auto simp add: Cons.IH)
qed

lemma need_blanks_eq:
  "need_blanks inputs =
     {c. (\<exists>i \<in> set inputs. c \<in> set (fst (snd i))) \<and> \<not> (\<exists>i \<in> set inputs. fst (snd i) = [c])}"
  by (auto simp add: need_blanks_def codepoint_sets_eq)

lemma finite_need_blanks: "finite (need_blanks inputs)"
proof -
  have "need_blanks inputs \<subseteq> (\<Union>i \<in> set inputs. set (fst (snd i)))"
    by (auto simp add: need_blanks_eq)
  then show ?thesis by (rule finite_subset) simp
qed

lemma new_blanks_result:
  assumes "distinct (map gn cps)" and "\<forall>c \<in> set cps. layer u (gn c) = None"
  shows "\<exists>u'. new_blanks gn cps (u, ns) = Inr (u', ns @ map gn cps)
           \<and> objects u' = objects u @ map (\<lambda>c. (new_Glyph (gn c))\<lparr>unicodes := [c]\<rparr>) cps
           \<and> (\<forall>n. n \<notin> gn ` set cps \<longrightarrow> layer u' n = layer u n)
           \<and> (\<forall>i < length cps. layer u' (gn (cps ! i)) = Some (length (objects u) + i))
           \<and> glyphOrder u' = glyphOrder u"
  using assms
proof (induction cps arbitrary: u ns)
  case Nil
  then show ?case by simp
next
  case (Cons c cps)
  let ?g = "length (objects u)"
  let ?u1 = "u\<lparr>objects := objects u @ [new_Glyph (gn c)], layer := (layer u)(gn c \<mapsto> ?g)\<rparr>"
  let ?u2 = "update_glyph ?g (set_unicode c) ?u1"
  have free: "layer u (gn c) = None" using Cons.prems by simp
  have ng: "newGlyph u (gn c) = Inr (?g, ?u1)" using free by (simp add: newGlyph_def)
  have obj2: "objects ?u2 = objects u @ [(new_Glyph (gn c))\<lparr>unicodes := [c]\<rparr>]"
    by (simp add: update_glyph_def set_unicode_def new_Glyph_def)
  have lay2: "layer ?u2 = (layer u)(gn c \<mapsto> ?g)" by (simp add: update_glyph_def)
  have ord2: "glyphOrder ?u2 = glyphOrder u" by (simp add: update_glyph_def)
  have d: "distinct (map gn cps)" and notin: "gn c \<notin> gn ` set cps"
    using Cons.prems by auto
  have free2: "\<forall>c' \<in> set cps. layer ?u2 (gn c') = None"
  proof
    fix c' assume c': "c' \<in> set cps"
    then have "gn c' \<noteq> gn c" using notin by (metis image_eqI)
    moreover have "layer u (gn c') = None" using Cons.prems c' by simp
    ultimately show "layer ?u2 (gn c') = None" by (simp add: lay2)
  qed
  obtain u' where
    r: "new_blanks gn cps (?u2, ns @ [gn c]) = Inr (u', (ns @ [gn c]) @ map gn cps)" and
    o: "objects u' = objects ?u2 @ map (\<lambda>c. (new_Glyph (gn c))\<lparr>unicodes := [c]\<rparr>) cps" and
    l1: "\<forall>n. n \<notin> gn ` set cps \<longrightarrow> layer u' n = layer ?u2 n" and
    l2: "\<forall>i < length cps. layer u' (gn (cps ! i)) = Some (length (objects ?u2) + i)" and
    g: "glyphOrder u' = glyphOrder ?u2"
    using Cons.IH [OF d free2, of "ns @ [gn c]"] by blast
  have step: "new_blanks gn (c # cps) (u, ns) = new_blanks gn cps (?u2, ns @ [gn c])"
    by (simp add: ng new_Glyph_def)
  have "\<forall>i < length (c # cps). layer u' (gn ((c # cps) ! i)) = Some (?g + i)"
  proof (intro allI impI)
    fix i assume i: "i < length (c # cps)"
    show "layer u' (gn ((c # cps) ! i)) = Some (?g + i)"
    proof (cases i)
      case 0
      then show ?thesis using l1 notin by (simp add: lay2)
    next
      case (Suc j)
      then show ?thesis using l2 i by (simp add: obj2)
    qed
  qed
  moreover have "\<forall>n. n \<notin> gn ` set (c # cps) \<longrightarrow> layer u' n = layer u n"
    using l1 by (auto simp add: lay2)
  moreover have "new_blanks gn (c # cps) (u, ns) = Inr (u', ns @ map gn (c # cps))"
    using step r by simp
  ultimately show ?case
    using o g by (intro exI [of _ u']) (simp del: new_blanks.simps add: obj2 ord2)
qed

text \<open>
  C4 (as amended). For a naming \<open>gn\<close> that gives the codepoints in need of a blank distinct
  names, none of them taken in the font: the codepoints that get a blank glyph are exactly
  those that occur in some input sequence and are no input's sole codepoint; each gets one
  new blank glyph, named by \<open>gn\<close> and mapped to the codepoint; no other name of the font
  changes; and the new names are appended to the glyph order sorted as names (strings), not
  by codepoint.
\<close>

theorem blank_glyphs_for_indirect_codepoints:
  assumes "inj_on gn (need_blanks glyph_inputs)"
    and "\<forall>c \<in> need_blanks glyph_inputs. layer u (gn c) = None"
  shows "need_blanks glyph_inputs =
           {c. (\<exists>i \<in> set glyph_inputs. c \<in> set (fst (snd i)))
               \<and> \<not> (\<exists>i \<in> set glyph_inputs. fst (snd i) = [c])}
         \<and> (\<exists>u'. ensure_codepoints_will_have_glyphs gn u glyph_inputs = Inr u'
               \<and> glyphOrder u' =
                   glyphOrder u @ sort (map gn (sorted_list_of_set (need_blanks glyph_inputs)))
               \<and> length (objects u') = length (objects u) + card (need_blanks glyph_inputs)
               \<and> take (length (objects u)) (objects u') = objects u
               \<and> (\<forall>c \<in> need_blanks glyph_inputs.
                     \<exists>r. layer u' (gn c) = Some r \<and> length (objects u) \<le> r
                         \<and> r < length (objects u')
                         \<and> objects u' ! r = (new_Glyph (gn c))\<lparr>unicodes := [c]\<rparr>)
               \<and> (\<forall>n. n \<notin> gn ` need_blanks glyph_inputs \<longrightarrow> layer u' n = layer u n))"
proof -
  let ?cps = "sorted_list_of_set (need_blanks glyph_inputs)"
  have fin: "finite (need_blanks glyph_inputs)" by (rule finite_need_blanks)
  have set_cps: "set ?cps = need_blanks glyph_inputs" using fin by simp
  have len_cps: "length ?cps = card (need_blanks glyph_inputs)" using fin by simp
  have "distinct ?cps" by simp
  then have d: "distinct (map gn ?cps)"
    using assms(1) set_cps by (simp add: distinct_map)
  have free: "\<forall>c \<in> set ?cps. layer u (gn c) = None"
    using assms(2) set_cps by simp
  obtain u1 where
    r: "new_blanks gn ?cps (u, []) = Inr (u1, [] @ map gn ?cps)" and
    o: "objects u1 = objects u @ map (\<lambda>c. (new_Glyph (gn c))\<lparr>unicodes := [c]\<rparr>) ?cps" and
    l1: "\<forall>n. n \<notin> gn ` set ?cps \<longrightarrow> layer u1 n = layer u n" and
    l2: "\<forall>i < length ?cps. layer u1 (gn (?cps ! i)) = Some (length (objects u) + i)" and
    g: "glyphOrder u1 = glyphOrder u"
    using new_blanks_result [OF d free, of "[]"] by blast
  let ?u' = "u1\<lparr>glyphOrder := glyphOrder u1 @ sort (map gn ?cps)\<rparr>"
  have res: "ensure_codepoints_will_have_glyphs gn u glyph_inputs = Inr ?u'"
    using r by (simp add: ensure_codepoints_will_have_glyphs_def)
  have each: "\<forall>c \<in> need_blanks glyph_inputs.
       \<exists>r. layer ?u' (gn c) = Some r \<and> length (objects u) \<le> r \<and> r < length (objects ?u')
           \<and> objects ?u' ! r = (new_Glyph (gn c))\<lparr>unicodes := [c]\<rparr>"
  proof
    fix c assume "c \<in> need_blanks glyph_inputs"
    then have "c \<in> set ?cps" using set_cps by simp
    then obtain i where i: "i < length ?cps" "?cps ! i = c"
      by (auto simp add: in_set_conv_nth)
    have "layer ?u' (gn c) = Some (length (objects u) + i)" using l2 i by auto
    moreover have "objects ?u' ! (length (objects u) + i) = (new_Glyph (gn c))\<lparr>unicodes := [c]\<rparr>"
      using i by (simp add: o nth_append)
    moreover have "length (objects u) + i < length (objects ?u')" using i by (simp add: o)
    ultimately show "\<exists>r. layer ?u' (gn c) = Some r \<and> length (objects u) \<le> r
        \<and> r < length (objects ?u') \<and> objects ?u' ! r = (new_Glyph (gn c))\<lparr>unicodes := [c]\<rparr>"
      by simp
  qed
  have others: "\<forall>n. n \<notin> gn ` need_blanks glyph_inputs \<longrightarrow> layer ?u' n = layer u n"
    using l1 set_cps by simp
  have "glyphOrder ?u' = glyphOrder u @ sort (map gn ?cps)" using g by simp
  moreover have "length (objects ?u') = length (objects u) + card (need_blanks glyph_inputs)"
    using len_cps by (simp add: o)
  moreover have "take (length (objects u)) (objects ?u') = objects u" by (simp add: o)
  ultimately have "\<exists>u'. ensure_codepoints_will_have_glyphs gn u glyph_inputs = Inr u'
               \<and> glyphOrder u' =
                   glyphOrder u @ sort (map gn (sorted_list_of_set (need_blanks glyph_inputs)))
               \<and> length (objects u') = length (objects u) + card (need_blanks glyph_inputs)
               \<and> take (length (objects u)) (objects u') = objects u
               \<and> (\<forall>c \<in> need_blanks glyph_inputs.
                     \<exists>r. layer u' (gn c) = Some r \<and> length (objects u) \<le> r
                         \<and> r < length (objects u')
                         \<and> objects u' ! r = (new_Glyph (gn c))\<lparr>unicodes := [c]\<rparr>)
               \<and> (\<forall>n. n \<notin> gn ` need_blanks glyph_inputs \<longrightarrow> layer u' n = layer u n)"
    using res each others by (intro exI [of _ ?u']) blast
  then show ?thesis using need_blanks_eq by blast
qed

lemma example_need_blanks:
  "need_blanks [(''emoji_u1f600.svg'', [0x1F600], []),
                (''emoji_u1f600_200d_1f648.svg'', [0x1F600, 0x200D, 0x1F648], [])]
     = {0x200D, 0x1F648}"
  by (auto simp add: need_blanks_def)

lemma example_blank_names:
  "emoji_glyph_name 0x200D = ''emoji_200d''" "emoji_glyph_name 0x1F648 = ''emoji_1f648''"
  by (simp_all add: emoji_glyph_name_def hex.simps hex_digit_def)

lemma example_sorted_codepoints: "sorted_list_of_set {0x200D, 0x1F648 :: int} = [0x200D, 0x1F648]"
proof -
  have "sorted_list_of_set (set [0x200D, 0x1F648 :: int]) = sort (remdups [0x200D, 0x1F648])"
    by (rule sorted_list_of_set_sort_remdups)
  then show ?thesis by simp
qed

lemma example_sorted_names: "sort [''emoji_200d'', ''emoji_1f648''] = [''emoji_1f648'', ''emoji_200d'']"
  by code_simp

theorem blank_glyphs_for_indirect_codepoints_witness:
  "inj_on emoji_glyph_name {0x200D, 0x1F648}
   \<and> need_blanks [(''emoji_u1f600.svg'', [0x1F600], []),
                   (''emoji_u1f600_200d_1f648.svg'', [0x1F600, 0x200D, 0x1F648], [])]
       = {0x200D, 0x1F648}
   \<and> map_sum id glyphOrder
       (ensure_codepoints_will_have_glyphs emoji_glyph_name
          (initial_ufo ''An Emoji Family'' 1024 False)
          [(''emoji_u1f600.svg'', [0x1F600], []),
           (''emoji_u1f600_200d_1f648.svg'', [0x1F600, 0x200D, 0x1F648], [])])
       = Inr [''.notdef'', ''.space'', ''emoji_1f648'', ''emoji_200d'']"
proof -
  let ?in = "[(''emoji_u1f600.svg'', [0x1F600], []),
              (''emoji_u1f600_200d_1f648.svg'', [0x1F600, 0x200D, 0x1F648], [])] :: InputGlyph list"
  let ?u = "initial_ufo ''An Emoji Family'' 1024 False"
  have inj: "inj_on emoji_glyph_name {0x200D, 0x1F648}"
    by (simp add: example_blank_names)
  have h1: "inj_on emoji_glyph_name (need_blanks ?in)"
    using inj by (simp only: example_need_blanks)
  have h2: "\<forall>c \<in> need_blanks ?in. layer ?u (emoji_glyph_name c) = None"
    by (simp add: example_need_blanks example_blank_names initial_ufo_def)
  from blank_glyphs_for_indirect_codepoints [OF h1 h2]
  obtain u' where
    "ensure_codepoints_will_have_glyphs emoji_glyph_name ?u ?in = Inr u'"
    "glyphOrder u' = glyphOrder ?u @ sort (map emoji_glyph_name (sorted_list_of_set (need_blanks ?in)))"
    by blast
  then have "map_sum id glyphOrder (ensure_codepoints_will_have_glyphs emoji_glyph_name ?u ?in)
      = Inr [''.notdef'', ''.space'', ''emoji_1f648'', ''emoji_200d'']"
    by (simp add: example_need_blanks example_sorted_codepoints example_blank_names
        example_sorted_names initial_ufo_def)
  then show ?thesis using inj example_need_blanks by simp
qed

theorem blank_glyphs_not_sorted_by_codepoint:
  "map_sum id glyphOrder
       (ensure_codepoints_will_have_glyphs emoji_glyph_name
          (initial_ufo ''An Emoji Family'' 1024 False)
          [(''emoji_u1f600.svg'', [0x1F600], []),
           (''emoji_u1f600_200d_1f648.svg'', [0x1F600, 0x200D, 0x1F648], [])])
     \<noteq> Inr (glyphOrder (initial_ufo ''An Emoji Family'' 1024 False)
             @ map emoji_glyph_name
                 (sorted_list_of_set
                    (need_blanks [(''emoji_u1f600.svg'', [0x1F600], []),
                       (''emoji_u1f600_200d_1f648.svg'', [0x1F600, 0x200D, 0x1F648], [])])))"
  by (simp add: ensure_codepoints_will_have_glyphs_def example_need_blanks
      example_sorted_codepoints example_blank_names example_sorted_names initial_ufo_def
      newGlyph_def update_glyph_def new_Glyph_def)

subsection \<open>Palette and paints\<close>

lemma index_from_mem:
  "x \<in> set xs \<Longrightarrow>
     \<exists>i. index_from k xs x = Inr (k + i) \<and> i < length xs \<and> xs ! i = x \<and> (\<forall>j < i. xs ! j \<noteq> x)"
proof (induction xs arbitrary: k)
  case Nil
  then show ?case by simp
next
  case (Cons y ys)
  show ?case
  proof (cases "y = x")
    case True
    then show ?thesis by (intro exI [of _ 0]) simp
  next
    case False
    then have "x \<in> set ys" using Cons.prems by simp
    then obtain i where i: "index_from (Suc k) ys x = Inr (Suc k + i)" "i < length ys"
        "ys ! i = x" "\<forall>j < i. ys ! j \<noteq> x"
      using Cons.IH [of "Suc k"] by blast
    have "\<forall>j < Suc i. (y # ys) ! j \<noteq> x"
      using False i(4) by (auto simp add: nth_Cons split: nat.splits)
    then show ?thesis
      using False i by (intro exI [of _ "Suc i"]) simp
  qed
qed

lemma index_from_not_mem: "x \<notin> set xs \<Longrightarrow> index_from k xs x = Inl (ValueError ''not in list'')"
  by (induction xs arbitrary: k) auto

lemma py_index_mem:
  "x \<in> set xs \<Longrightarrow>
     \<exists>i. py_index xs x = Inr i \<and> i < length xs \<and> xs ! i = x \<and> (\<forall>j < i. xs ! j \<noteq> x)"
  using index_from_mem [of x xs 0] by (simp add: py_index_def)

lemma py_index_not_mem: "x \<notin> set xs \<Longrightarrow> py_index xs x = Inl (ValueError ''not in list'')"
  by (simp add: py_index_def index_from_not_mem)

lemma set_colr_colors:
  "set (colr_colors v color_glyphs) =
     (\<lambda>c. if v = 0 then c else opaque c) ` (\<Union>g \<in> set color_glyphs. set (colors g))"
  by (simp add: colr_colors_def)

lemma layer_color_in_colors:
  "l \<in> set (as_painted_layers g) \<Longrightarrow> c \<in> set (paint_colors (paint l)) \<Longrightarrow> c \<in> set (colors g)"
  by (auto simp add: colors_def)

text \<open>
  C10. Under version 0, for every color glyph of the encoded list and every one of its
  painted layers whose paint mentions a color, the first color of the paint is in the
  palette built from the same list, so the palette-index lookup of \<^verbatim>\<open>_colr_paint\<close> returns
  the position of that color and does not raise.
\<close>

theorem colr_v0_index_lookup_succeeds:
  assumes "g \<in> set color_glyphs"
    and "l \<in> set (as_painted_layers g)"
    and "paint_colors (paint l) = c # cs"
  shows "c \<in> set (colr_colors 0 color_glyphs)
         \<and> (\<exists>i. py_index (colr_colors 0 color_glyphs) c = Inr i
               \<and> i < length (colr_colors 0 color_glyphs)
               \<and> colr_colors 0 color_glyphs ! i = c
               \<and> colr_paint 0 (paint l) (colr_colors 0 color_glyphs) = Inr (PaletteIndex i))"
proof -
  have "c \<in> set (colors g)"
    using assms(2,3) layer_color_in_colors [of l g c] by simp
  then have "c \<in> (\<Union>g \<in> set color_glyphs. set (colors g))"
    using assms(1) by blast
  then have mem: "c \<in> set (colr_colors 0 color_glyphs)"
    by (simp add: set_colr_colors)
  from py_index_mem [OF mem]
  obtain i where i: "py_index (colr_colors 0 color_glyphs) c = Inr i"
      "i < length (colr_colors 0 color_glyphs)" "colr_colors 0 color_glyphs ! i = c"
    by blast
  have "colr_paint 0 (paint l) (colr_colors 0 color_glyphs) = Inr (PaletteIndex i)"
    using assms(3) i(1) by (simp add: colr_paint_def)
  with i have "\<exists>i. py_index (colr_colors 0 color_glyphs) c = Inr i
               \<and> i < length (colr_colors 0 color_glyphs)
               \<and> colr_colors 0 color_glyphs ! i = c
               \<and> colr_paint 0 (paint l) (colr_colors 0 color_glyphs) = Inr (PaletteIndex i)"
    by (intro exI [of _ i]) simp
  with mem show ?thesis by (rule conjI)
qed

lemma example_colors:
  "colors example_face = [(0, 0, 255, 1), (0, 255, 0, 1/2), (255, 0, 0, 1)]"
  "colors example_moon = [(0, 0, 255, 1)]"
  by (simp_all add: colors_def example_face_def example_moon_def)

lemma example_colr_colors_v0:
  "colr_colors 0 [example_face, example_moon] = [(0, 0, 255, 1), (0, 255, 0, 1/2), (255, 0, 0, 1)]"
proof -
  let ?L = "[(0, 0, 255, 1), (0, 255, 0, 1/2), (255, 0, 0, 1), (0, 0, 255, 1)] :: color list"
  have c: "map (\<lambda>c. if (0::int) = 0 then c else opaque c)
             (concat (map colors [example_face, example_moon])) = ?L"
    by (simp add: example_colors)
  have "colr_colors 0 [example_face, example_moon] = sorted_list_of_set (set ?L)"
    by (simp only: colr_colors_def c)
  also have "\<dots> = sort (remdups ?L)"
    by (rule sorted_list_of_set_sort_remdups)
  also have "\<dots> = [(0, 0, 255, 1), (0, 255, 0, 1/2), (255, 0, 0, 1)]"
    by simp
  finally show ?thesis .
qed

theorem colr_v0_index_lookup_succeeds_witness:
  "(0, 0, 255, 1) \<in> set (colr_colors 0 [example_face, example_moon])
   \<and> colr_paint 0 (PaintGradient [(0, (0, 0, 255, 1)), (1, (0, 255, 0, 1/2))])
       (colr_colors 0 [example_face, example_moon]) = Inr (PaletteIndex 0)"
proof -
  let ?l = "\<lparr>paint = PaintGradient [(0, (0, 0, 255, 1)), (1, (0, 255, 0, 1/2))],
          path = \<lparr>path_d = ''M0,0 L8,0 L8,8 Z'', path_fill = None, path_id = None\<rparr>, reuses = []\<rparr>"
  have h1: "example_face \<in> set [example_face, example_moon]" by simp
  have h2: "?l \<in> set (as_painted_layers example_face)" by (simp add: example_face_def)
  have h3: "paint_colors (paint ?l) = (0, 0, 255, 1) # [(0, 255, 0, 1/2)]" by simp
  have "(0, 0, 255, 1) \<in> set (colr_colors 0 [example_face, example_moon])"
    using colr_v0_index_lookup_succeeds [OF h1 h2 h3] by blast
  moreover have "colr_paint 0 (PaintGradient [(0, (0, 0, 255, 1)), (1, (0, 255, 0, 1/2))])
       (colr_colors 0 [example_face, example_moon]) = Inr (PaletteIndex 0)"
    by (simp add: example_colr_colors_v0 colr_paint_def py_index_def)
  ultimately show ?thesis by simp
qed

lemma colr_v0_first_color:
  assumes "g \<in> set color_glyphs"
    and "l \<in> set (as_painted_layers g)"
    and "paint_colors (paint l) = c # cs"
  shows "\<exists>i. colr_paint 0 (paint l) (colr_colors 0 color_glyphs) = Inr (PaletteIndex i)
               \<and> i < length (colr_colors 0 color_glyphs)
               \<and> colr_colors 0 color_glyphs ! i = c"
proof -
  have "c \<in> set (colors g)"
    using assms(2,3) layer_color_in_colors [of l g c] by simp
  then have "c \<in> (\<Union>g \<in> set color_glyphs. set (colors g))"
    using assms(1) by blast
  then have mem: "c \<in> set (colr_colors 0 color_glyphs)"
    by (simp add: set_colr_colors)
  from py_index_mem [OF mem]
  obtain i where i: "py_index (colr_colors 0 color_glyphs) c = Inr i"
      "i < length (colr_colors 0 color_glyphs)" "colr_colors 0 color_glyphs ! i = c"
    by blast
  have "colr_paint 0 (paint l) (colr_colors 0 color_glyphs) = Inr (PaletteIndex i)"
    using assms(3) i(1) by (simp add: colr_paint_def)
  with i show ?thesis by (intro exI [of _ i]) simp
qed

lemma ufo_color_line_result:
  assumes "\<forall>s \<in> set stops. opaque (snd s) \<in> set palette"
  shows "\<exists>line. ufo_color_line palette stops = Inr line
           \<and> length line = length stops
           \<and> map fst line = map fst stops
           \<and> (\<forall>k < length stops. fst (snd (line ! k)) < length palette
                  \<and> palette ! fst (snd (line ! k)) = opaque (snd (stops ! k))
                  \<and> snd (snd (line ! k)) = alpha (snd (stops ! k)))"
  using assms
proof (induction stops)
  case Nil
  then show ?case by simp
next
  case (Cons s stops)
  obtain offset c where s: "s = (offset, c)" by (cases s)
  have "opaque c \<in> set palette" using Cons.prems s by simp
  from py_index_mem [OF this]
  obtain i where i: "py_index palette (opaque c) = Inr i" "i < length palette"
      "palette ! i = opaque c"
    by blast
  have "\<forall>s \<in> set stops. opaque (snd s) \<in> set palette" using Cons.prems by simp
  from Cons.IH [OF this]
  obtain line where line: "ufo_color_line palette stops = Inr line"
      "length line = length stops" "map fst line = map fst stops"
      "\<forall>k < length stops. fst (snd (line ! k)) < length palette
          \<and> palette ! fst (snd (line ! k)) = opaque (snd (stops ! k))
          \<and> snd (snd (line ! k)) = alpha (snd (stops ! k))"
    by blast
  let ?line = "(offset, i, alpha c) # line"
  have r: "ufo_color_line palette (s # stops) = Inr ?line"
    using i(1) line(1) by (simp add: s)
  have each: "\<forall>k < length (s # stops). fst (snd (?line ! k)) < length palette
          \<and> palette ! fst (snd (?line ! k)) = opaque (snd ((s # stops) ! k))
          \<and> snd (snd (?line ! k)) = alpha (snd ((s # stops) ! k))"
  proof (intro allI impI)
    fix k assume k: "k < length (s # stops)"
    show "fst (snd (?line ! k)) < length palette
          \<and> palette ! fst (snd (?line ! k)) = opaque (snd ((s # stops) ! k))
          \<and> snd (snd (?line ! k)) = alpha (snd ((s # stops) ! k))"
    proof (cases k)
      case 0
      then show ?thesis using i by (simp add: s)
    next
      case (Suc j)
      then show ?thesis using line(4) k by simp
    qed
  qed
  show ?case
    using r line(2,3) each by (intro exI [of _ ?line]) (simp add: s)
qed

lemma opaque_in_colr_colors_v1:
  "g \<in> set color_glyphs \<Longrightarrow> c \<in> set (colors g) \<Longrightarrow> opaque c \<in> set (colr_colors 1 color_glyphs)"
  by (auto simp add: set_colr_colors)

lemma example_colr_colors_v1:
  "colr_colors 1 [example_face, example_moon] = [(0, 0, 255, 1), (0, 255, 0, 1), (255, 0, 0, 1)]"
proof -
  let ?L = "[(0, 0, 255, 1), (0, 255, 0, 1), (255, 0, 0, 1), (0, 0, 255, 1)] :: color list"
  have c: "map (\<lambda>c. if (1::int) = 0 then c else opaque c)
             (concat (map colors [example_face, example_moon])) = ?L"
    by (simp add: example_colors opaque_def)
  have "colr_colors 1 [example_face, example_moon] = sorted_list_of_set (set ?L)"
    by (simp only: colr_colors_def c)
  also have "\<dots> = sort (remdups ?L)"
    by (rule sorted_list_of_set_sort_remdups)
  also have "\<dots> = [(0, 0, 255, 1), (0, 255, 0, 1), (255, 0, 0, 1)]"
    by simp
  finally show ?thesis .
qed

subsection \<open>Fresh names\<close>

lemma digit_char_inj: "digit_char n = digit_char m \<Longrightarrow> n mod 10 = m mod 10"
proof -
  assume a: "digit_char n = digit_char m"
  have d: "distinct ''0123456789''" by simp
  have "n mod 10 < length ''0123456789''" "m mod 10 < length ''0123456789''" by simp_all
  then show ?thesis
    using a d unfolding digit_char_def by (simp only: nth_eq_iff_index_eq)
qed

lemma str_nat_last: "str_nat n \<noteq> [] \<and> last (str_nat n) = digit_char n"
  by (subst (1 2) str_nat.simps) simp

lemma str_nat_butlast: "butlast (str_nat n) = (if n < 10 then [] else str_nat (n div 10))"
  by (subst str_nat.simps) (simp add: butlast_append)

lemma str_nat_inj: "str_nat n = str_nat m \<Longrightarrow> n = m"
proof (induction n arbitrary: m rule: str_nat.induct)
  case (1 n)
  have dig: "n mod 10 = m mod 10"
    using "1.prems" str_nat_last [of n] str_nat_last [of m] digit_char_inj by metis
  have bl: "butlast (str_nat n) = butlast (str_nat m)" using "1.prems" by simp
  have ne: "str_nat k \<noteq> []" for k using str_nat_last [of k] by simp
  show ?case
  proof (cases "n < 10")
    case True
    then have "m < 10" using bl ne [of "m div 10"] by (auto simp add: str_nat_butlast split: if_splits)
    then show ?thesis using True dig by simp
  next
    case False
    then have m: "\<not> m < 10" using bl ne [of "n div 10"] by (auto simp add: str_nat_butlast split: if_splits)
    then have "str_nat (n div 10) = str_nat (m div 10)"
      using bl False by (simp add: str_nat_butlast)
    then have "n div 10 = m div 10" using "1.IH" False by simp
    then show ?thesis using dig by (metis div_mult_mod_eq)
  qed
qed

lemma inj_numbered_name: "inj (\<lambda>i. prefix @ str_nat i)"
  by (rule injI) (simp add: str_nat_inj)

lemma next_name_from_returns:
  assumes "finite (dom (layer u))" and "inj name_fn"
  shows "\<exists>j \<ge> i. next_name_from u name_fn i = Some (name_fn j) \<and> layer u (name_fn j) = None"
proof -
  let ?P = "{j. ufo_contains u (name_fn j)}"
  have "?P = name_fn -` dom (layer u)" by (auto simp add: ufo_contains_def)
  then have "finite ?P" using assms by (simp add: finite_vimageI)
  then obtain b where b: "\<forall>j \<in> ?P. j < b"
    using finite_nat_set_iff_bounded by blast
  have "\<exists>j \<ge> i. next_name_from u name_fn i = Some (name_fn j) \<and> layer u (name_fn j) = None"
    if "b - i = d" for d i
    using that
  proof (induction d arbitrary: i)
    case 0
    then have "i \<notin> ?P" using b by auto
    then have n: "\<not> ufo_contains u (name_fn i)" by simp
    then have "next_name_from u name_fn i = Some (name_fn i)"
      by (subst next_name_from.simps) simp
    then show ?case using n by (auto simp add: ufo_contains_def)
  next
    case (Suc d)
    show ?case
    proof (cases "ufo_contains u (name_fn i)")
      case True
      then have "i < b" using b by simp
      then have "b - Suc i = d" using Suc.prems by simp
      from Suc.IH [OF this]
      obtain j where j: "j \<ge> Suc i" "next_name_from u name_fn (Suc i) = Some (name_fn j)"
          "layer u (name_fn j) = None"
        by blast
      have "next_name_from u name_fn i = next_name_from u name_fn (Suc i)"
        using True by (subst next_name_from.simps) simp
      then show ?thesis using j by (intro exI [of _ j]) simp
    next
      case False
      then have "next_name_from u name_fn i = Some (name_fn i)"
        by (subst next_name_from.simps) simp
      then show ?thesis using False by (auto simp add: ufo_contains_def)
    qed
  qed
  then show ?thesis by simp
qed

lemma next_name_returns:
  assumes "finite (dom (layer u))"
  shows "\<exists>n. next_name u (\<lambda>i. prefix @ str_nat i) = Some n \<and> layer u n = None"
  using next_name_from_returns [OF assms inj_numbered_name, of 0 prefix]
  by (auto simp add: next_name_def)

subsection \<open>The store\<close>

lemma update_glyph_fields [simp]:
  "layer (update_glyph r f u) = layer u"
  "glyphOrder (update_glyph r f u) = glyphOrder u"
  "unitsPerEm (update_glyph r f u) = unitsPerEm u"
  "colorPalettes (update_glyph r f u) = colorPalettes u"
  "colorLayers (update_glyph r f u) = colorLayers u"
  "length (objects (update_glyph r f u)) = length (objects u)"
  by (simp_all add: update_glyph_def)

lemma update_glyph_nth:
  "objects (update_glyph r f u) ! k =
     (if k = r \<and> r < length (objects u) then f (objects u ! r) else objects u ! k)"
  by (cases "r < length (objects u)") (simp_all add: update_glyph_def nth_list_update list_update_beyond)

lemma append_component_fields [simp]:
  "layer (append_component r c u) = layer u"
  "glyphOrder (append_component r c u) = glyphOrder u"
  "unitsPerEm (append_component r c u) = unitsPerEm u"
  "colorPalettes (append_component r c u) = colorPalettes u"
  "colorLayers (append_component r c u) = colorLayers u"
  "length (objects (append_component r c u)) = length (objects u)"
  by (simp_all add: append_component_def)

lemma append_component_nth:
  "objects (append_component r c u) ! k =
     (if k = r \<and> r < length (objects u)
      then (objects u ! r)\<lparr>components := components (objects u ! r) @ [c]\<rparr>
      else objects u ! k)"
  by (simp add: append_component_def update_glyph_nth)

lemma fold_append_component:
  "r < length (objects u) \<Longrightarrow>
     fold (\<lambda>t. append_component r (f t)) ts u =
       update_glyph r (\<lambda>g. g\<lparr>components := components g @ map f ts\<rparr>) u"
proof (induction ts arbitrary: u)
  case Nil
  then show ?case by (simp add: update_glyph_def)
next
  case (Cons t ts)
  have "r < length (objects (append_component r (f t) u))" using Cons.prems by simp
  from Cons.IH [OF this] show ?case
    using Cons.prems by (simp add: append_component_def update_glyph_def)
qed

lemma create_glyph_no_reuses:
  assumes "finite (dom (layer u))" and "reuses pl = []"
  shows "\<exists>n. layer u n = None
           \<and> create_glyph u cg pl =
               Some (Inr (length (objects u),
                 u\<lparr>objects := objects u @
                      [\<lparr>name = n, width = unitsPerEm u, unicodes = [], components = [],
                        contours = [DrawnPath (path_d (path pl)) (transform_for_font_space cg)]\<rparr>],
                   layer := (layer u)(n \<mapsto> length (objects u)),
                   glyphOrder := glyphOrder u @ [n]\<rparr>))"
proof -
  obtain n where n: "next_name u (\<lambda>i. glyph_name cg @ ''.'' @ str_nat i) = Some n" "layer u n = None"
    using next_name_returns [OF assms(1), of "glyph_name cg @ ''.''"] by auto
  show ?thesis
    using n assms(2)
    by (intro exI [of _ n])
      (simp add: create_glyph_def newGlyph_def Let_def draw_def update_glyph_def new_Glyph_def)
qed

lemma create_glyph_reuses:
  assumes "finite (dom (layer u))" and "reuses pl \<noteq> []"
  shows "\<exists>n bn. layer u n = None \<and> layer u bn = None \<and> bn \<noteq> n
           \<and> create_glyph u cg pl =
               Some (Inr (length (objects u),
                 u\<lparr>objects := objects u @
                      [\<lparr>name = n, width = unitsPerEm u, unicodes = [],
                        components =
                          \<lparr>baseGlyph = bn, transformation = identity\<rparr>
                          # map (reuse_component bn (transform_for_font_space cg)) (reuses pl),
                        contours = []\<rparr>,
                       \<lparr>name = bn, width = 0, unicodes = [], components = [],
                        contours = [DrawnPath (path_d (path pl)) (transform_for_font_space cg)]\<rparr>],
                   layer := (layer u)(n \<mapsto> length (objects u), bn \<mapsto> Suc (length (objects u))),
                   glyphOrder := glyphOrder u @ [n, bn]\<rparr>))"
proof -
  let ?g = "length (objects u)"
  obtain n where n: "next_name u (\<lambda>i. glyph_name cg @ ''.'' @ str_nat i) = Some n" "layer u n = None"
    using next_name_returns [OF assms(1), of "glyph_name cg @ ''.''"] by auto
  let ?u1 = "u\<lparr>objects := objects u @ [new_Glyph n], layer := (layer u)(n \<mapsto> ?g)\<rparr>"
  let ?u2 = "update_glyph ?g (\<lambda>g. g\<lparr>width := unitsPerEm ?u1\<rparr>) ?u1"
  have ng: "newGlyph u n = Inr (?g, ?u1)" using n(2) by (simp add: newGlyph_def)
  have nm: "name (objects ?u2 ! ?g) = n" by (simp add: update_glyph_def new_Glyph_def)
  have "finite (dom (layer ?u2))" using assms(1) by simp
  from next_name_returns [OF this, of "n @ ''.component.''"]
  obtain bn where bn: "next_name ?u2 (\<lambda>i. n @ ''.component.'' @ str_nat i) = Some bn"
      "layer ?u2 bn = None"
    by auto
  have bn_n: "bn \<noteq> n" using bn(2) by auto
  have bn_u: "layer u bn = None" using bn(2) bn_n by simp
  have ng2: "newGlyph ?u2 bn =
      Inr (Suc ?g, ?u2\<lparr>objects := objects ?u2 @ [new_Glyph bn],
                      layer := (layer ?u2)(bn \<mapsto> Suc ?g)\<rparr>)"
    using bn(2) by (simp add: newGlyph_def)
  let ?u3 = "?u2\<lparr>objects := objects ?u2 @ [new_Glyph bn], layer := (layer ?u2)(bn \<mapsto> Suc ?g)\<rparr>"
  let ?u4 = "draw (path pl) (Suc ?g) (transform_for_font_space cg) ?u3"
  let ?u5 = "append_component ?g \<lparr>baseGlyph = bn, transformation = identity\<rparr> ?u4"
  have fold: "fold (\<lambda>t. append_component ?g (reuse_component bn (transform_for_font_space cg) t))
           (reuses pl) ?u5
        = update_glyph ?g (\<lambda>g. g\<lparr>components := components g
              @ map (reuse_component bn (transform_for_font_space cg)) (reuses pl)\<rparr>) ?u5"
    by (rule fold_append_component) (simp add: draw_def)
  have "create_glyph u cg pl =
          Some (Inr (?g,
            (update_glyph ?g (\<lambda>g. g\<lparr>components := components g
              @ map (reuse_component bn (transform_for_font_space cg)) (reuses pl)\<rparr>) ?u5)
             \<lparr>glyphOrder := glyphOrder u @ [n, bn]\<rparr>))"
    using assms(2) n bn bn_n bn_u
    by (simp add: create_glyph_def newGlyph_def Let_def update_glyph_nth nth_append new_Glyph_def
        fold_append_component draw_def)
  also have "(update_glyph ?g (\<lambda>g. g\<lparr>components := components g
              @ map (reuse_component bn (transform_for_font_space cg)) (reuses pl)\<rparr>) ?u5)
             \<lparr>glyphOrder := glyphOrder u @ [n, bn]\<rparr>
      = u\<lparr>objects := objects u @
                      [\<lparr>name = n, width = unitsPerEm u, unicodes = [],
                        components =
                          \<lparr>baseGlyph = bn, transformation = identity\<rparr>
                          # map (reuse_component bn (transform_for_font_space cg)) (reuses pl),
                        contours = []\<rparr>,
                       \<lparr>name = bn, width = 0, unicodes = [], components = [],
                        contours = [DrawnPath (path_d (path pl)) (transform_for_font_space cg)]\<rparr>],
                   layer := (layer u)(n \<mapsto> length (objects u), bn \<mapsto> Suc (length (objects u))),
                   glyphOrder := glyphOrder u @ [n, bn]\<rparr>"
    by (simp add: draw_def update_glyph_def append_component_def new_Glyph_def nth_append
        list_update_append)
  finally show ?thesis
    using n(2) bn_u bn_n by blast
qed

subsection \<open>Reusing or creating the outline glyph of a layer\<close>

lemma reuse_or_create_seen:
  "glyphs (inter_glyph_reuse_key l) = Some r \<Longrightarrow>
     reuse_or_create u glyphs cg l = Some (Inr (r, u, glyphs))"
  by (simp add: reuse_or_create_def)

lemma reuse_or_create_effect:
  assumes fin: "finite (dom (layer u))" and ok: "glyphs_ok u G"
  shows "\<exists>g u1. reuse_or_create u G cg l = Some (Inr (g, u1, G(inter_glyph_reuse_key l \<mapsto> g)))
      \<and> (\<forall>r. G (inter_glyph_reuse_key l) = Some r \<longrightarrow> g = r \<and> u1 = u)
      \<and> (G (inter_glyph_reuse_key l) = None \<longrightarrow>
            g = length (objects u) \<and> layer u (name (objects u1 ! g)) = None)
      \<and> finite (dom (layer u1))
      \<and> glyphs_ok u1 (G(inter_glyph_reuse_key l \<mapsto> g))
      \<and> length (objects u1) = length (objects u)
            + (if G (inter_glyph_reuse_key l) = None then outline_cost (inter_glyph_reuse_key l) else 0)
      \<and> (\<forall>r < length (objects u). objects u1 ! r = objects u ! r)
      \<and> (\<forall>m. layer u m \<noteq> None \<longrightarrow> layer u1 m = layer u m)
      \<and> (\<forall>m r. layer u1 m = Some r \<longrightarrow> layer u m = Some r \<or> length (objects u) \<le> r)
      \<and> unitsPerEm u1 = unitsPerEm u \<and> colorPalettes u1 = colorPalettes u
      \<and> colorLayers u1 = colorLayers u"
proof (cases "G (inter_glyph_reuse_key l)")
  case (Some r)
  have "G(inter_glyph_reuse_key l \<mapsto> r) = G" using Some by (simp add: fun_upd_idem)
  then show ?thesis
    using Some fin ok by (intro exI [of _ r] exI [of _ u]) (simp add: reuse_or_create_seen)
next
  case None
  let ?k = "inter_glyph_reuse_key l"
  let ?g = "length (objects u)"
  have old: "r < ?g \<and> layer u (name (objects u ! r)) = Some r" if "G k = Some r" for k r
    using ok that unfolding glyphs_ok_def by blast
  show ?thesis
  proof (cases "reuses l = []")
    case True
    from create_glyph_no_reuses [OF fin True, of cg]
    obtain n where n: "layer u n = None" and
      c: "create_glyph u cg l =
               Some (Inr (?g,
                 u\<lparr>objects := objects u @
                      [\<lparr>name = n, width = unitsPerEm u, unicodes = [], components = [],
                        contours = [DrawnPath (path_d (path l)) (transform_for_font_space cg)]\<rparr>],
                   layer := (layer u)(n \<mapsto> ?g),
                   glyphOrder := glyphOrder u @ [n]\<rparr>))"
      by blast
    let ?u1 = "u\<lparr>objects := objects u @
                      [\<lparr>name = n, width = unitsPerEm u, unicodes = [], components = [],
                        contours = [DrawnPath (path_d (path l)) (transform_for_font_space cg)]\<rparr>],
                   layer := (layer u)(n \<mapsto> ?g),
                   glyphOrder := glyphOrder u @ [n]\<rparr>"
    have r: "reuse_or_create u G cg l = Some (Inr (?g, ?u1, G(?k \<mapsto> ?g)))"
      using None c by (simp add: reuse_or_create_def)
    have gok: "glyphs_ok ?u1 (G(?k \<mapsto> ?g))"
      unfolding glyphs_ok_def
    proof (intro allI impI)
      fix k r assume a: "(G(?k \<mapsto> ?g)) k = Some r"
      show "r < length (objects ?u1) \<and> layer ?u1 (name (objects ?u1 ! r)) = Some r"
      proof (cases "k = ?k")
        case True
        then have "r = ?g" using a by simp
        then show ?thesis by simp
      next
        case False
        then have o: "r < ?g" "layer u (name (objects u ! r)) = Some r" using a old by auto
        then have "name (objects u ! r) \<noteq> n" using n by auto
        then show ?thesis using o by (simp add: nth_append)
      qed
    qed
    have cost: "outline_cost ?k = 1" using True by (simp add: outline_cost_def inter_glyph_reuse_key_def)
    have lay: "\<forall>m. layer u m \<noteq> None \<longrightarrow> layer ?u1 m = layer u m" using n by auto
    have lay2: "\<forall>m r. layer ?u1 m = Some r \<longrightarrow> layer u m = Some r \<or> ?g \<le> r" by auto
    show ?thesis
      using None r gok cost lay lay2 fin n
      by (intro exI [of _ ?g] exI [of _ ?u1]) (simp add: nth_append)
  next
    case False
    from create_glyph_reuses [OF fin False, of cg]
    obtain n bn where n: "layer u n = None" "layer u bn = None" "bn \<noteq> n" and
      c: "create_glyph u cg l =
               Some (Inr (?g,
                 u\<lparr>objects := objects u @
                      [\<lparr>name = n, width = unitsPerEm u, unicodes = [],
                        components =
                          \<lparr>baseGlyph = bn, transformation = identity\<rparr>
                          # map (reuse_component bn (transform_for_font_space cg)) (reuses l),
                        contours = []\<rparr>,
                       \<lparr>name = bn, width = 0, unicodes = [], components = [],
                        contours = [DrawnPath (path_d (path l)) (transform_for_font_space cg)]\<rparr>],
                   layer := (layer u)(n \<mapsto> ?g, bn \<mapsto> Suc ?g),
                   glyphOrder := glyphOrder u @ [n, bn]\<rparr>))"
      by blast
    let ?u1 = "u\<lparr>objects := objects u @
                      [\<lparr>name = n, width = unitsPerEm u, unicodes = [],
                        components =
                          \<lparr>baseGlyph = bn, transformation = identity\<rparr>
                          # map (reuse_component bn (transform_for_font_space cg)) (reuses l),
                        contours = []\<rparr>,
                       \<lparr>name = bn, width = 0, unicodes = [], components = [],
                        contours = [DrawnPath (path_d (path l)) (transform_for_font_space cg)]\<rparr>],
                   layer := (layer u)(n \<mapsto> ?g, bn \<mapsto> Suc ?g),
                   glyphOrder := glyphOrder u @ [n, bn]\<rparr>"
    have r: "reuse_or_create u G cg l = Some (Inr (?g, ?u1, G(?k \<mapsto> ?g)))"
      using None c by (simp add: reuse_or_create_def)
    have gok: "glyphs_ok ?u1 (G(?k \<mapsto> ?g))"
      unfolding glyphs_ok_def
    proof (intro allI impI)
      fix k r assume a: "(G(?k \<mapsto> ?g)) k = Some r"
      show "r < length (objects ?u1) \<and> layer ?u1 (name (objects ?u1 ! r)) = Some r"
      proof (cases "k = ?k")
        case True
        then have "r = ?g" using a by simp
        then show ?thesis using n by simp
      next
        case False
        then have o: "r < ?g" "layer u (name (objects u ! r)) = Some r" using a old by auto
        then have "name (objects u ! r) \<noteq> n" "name (objects u ! r) \<noteq> bn" using n by auto
        then show ?thesis using o by (simp add: nth_append)
      qed
    qed
    have cost: "outline_cost ?k = 2" using False by (simp add: outline_cost_def inter_glyph_reuse_key_def)
    have lay: "\<forall>m. layer u m \<noteq> None \<longrightarrow> layer ?u1 m = layer u m" using n by auto
    have lay2: "\<forall>m r. layer ?u1 m = Some r \<longrightarrow> layer u m = Some r \<or> ?g \<le> r" by auto
    show ?thesis
      using None r gok cost lay lay2 fin n
      by (intro exI [of _ ?g] exI [of _ ?u1]) (simp add: nth_append)
  qed
qed

subsection \<open>The palette-layered encoder reuses outlines\<close>

lemma font_grows_refl: "font_grows u u"
  by (simp add: font_grows_def)

lemma font_grows_trans: "font_grows u u1 \<Longrightarrow> font_grows u1 u2 \<Longrightarrow> font_grows u u2"
  unfolding font_grows_def by (metis le_trans less_le_trans)

lemma glyphs_ok_lookup:
  "glyphs_ok u G \<Longrightarrow> G k = Some r \<Longrightarrow> r < length (objects u) \<and> layer u (name (objects u ! r)) = Some r"
  unfolding glyphs_ok_def by blast

lemma glyphs_ok_grows:
  assumes "glyphs_ok u G" and "font_grows u u'"
  shows "glyphs_ok u' G"
  unfolding glyphs_ok_def
proof (intro allI impI)
  fix k r assume "G k = Some r"
  then have r: "r < length (objects u)" "layer u (name (objects u ! r)) = Some r"
    using assms(1) glyphs_ok_lookup by blast+
  have "name (objects u' ! r) = name (objects u ! r)"
    using assms(2) r(1) by (simp add: font_grows_def)
  moreover have "layer u' (name (objects u ! r)) = layer u (name (objects u ! r))"
    using assms(2) r(2) by (simp add: font_grows_def)
  moreover have "r < length (objects u')" using assms(2) r(1) by (simp add: font_grows_def)
  ultimately show "r < length (objects u') \<and> layer u' (name (objects u' ! r)) = Some r"
    using r(2) by simp
qed

lemma sum_new_keys:
  fixes f :: "'k \<Rightarrow> nat"
  assumes "A \<subseteq> B" and "B \<subseteq> C" and "finite (C - A)"
  shows "sum f (C - A) = sum f (B - A) + sum f (C - B)"
proof -
  have "C - A = (B - A) \<union> (C - B)" using assms(1,2) by blast
  moreover have "(B - A) \<inter> (C - B) = {}" by blast
  moreover have "finite (B - A)" "finite (C - B)"
    using assms by (auto intro: finite_subset [OF _ assms(3)])
  ultimately show ?thesis by (simp add: sum.union_disjoint)
qed

lemma colr_layers_effect:
  assumes "colr_layers v pal cg ls (u, G, acc) = Some (Inr (u', G', acc'))"
    and "finite (dom (layer u))" and "glyphs_ok u G"
  shows "finite (dom (layer u')) \<and> glyphs_ok u' G' \<and> G \<subseteq>\<^sub>m G'
         \<and> dom G' = dom G \<union> inter_glyph_reuse_key ` set ls
         \<and> font_grows u u'
         \<and> length (objects u') = length (objects u) + sum outline_cost (dom G' - dom G)
         \<and> map fst acc' = map fst acc
               @ map (\<lambda>l. name (objects u' ! the (G' (inter_glyph_reuse_key l)))) ls
         \<and> colorPalettes u' = colorPalettes u \<and> colorLayers u' = colorLayers u"
  using assms
proof (induction ls arbitrary: u G acc)
  case Nil
  then show ?case by (simp add: font_grows_refl)
next
  case (Cons l ls)
  let ?k = "inter_glyph_reuse_key l"
  from reuse_or_create_effect [OF Cons.prems(2,3), of cg l]
  obtain g u1 where
    r: "reuse_or_create u G cg l = Some (Inr (g, u1, G(?k \<mapsto> g)))" and
    seen: "\<forall>r. G ?k = Some r \<longrightarrow> g = r \<and> u1 = u" and
    fin1: "finite (dom (layer u1))" and
    ok1: "glyphs_ok u1 (G(?k \<mapsto> g))" and
    len1: "length (objects u1) = length (objects u)
            + (if G ?k = None then outline_cost ?k else 0)" and
    obj1: "\<forall>r < length (objects u). objects u1 ! r = objects u ! r" and
    lay1: "\<forall>m. layer u m \<noteq> None \<longrightarrow> layer u1 m = layer u m" and
    pal1: "colorPalettes u1 = colorPalettes u" "colorLayers u1 = colorLayers u"
    by blast
  let ?G1 = "G(?k \<mapsto> g)"
  have le1: "G \<subseteq>\<^sub>m ?G1" using seen by (auto simp add: map_le_def)
  have grows1: "font_grows u u1" using len1 obj1 lay1 by (simp add: font_grows_def)
  obtain p where p: "colr_paint v (paint l) pal = Inr p"
    using Cons.prems(1) r by (cases "colr_paint v (paint l) pal") simp_all
  let ?acc1 = "acc @ [(name (objects u1 ! g), p)]"
  have run1: "colr_layers v pal cg ls (u1, ?G1, ?acc1) = Some (Inr (u', G', acc'))"
    using Cons.prems(1) r p by simp
  from Cons.IH [OF run1 fin1 ok1]
  have fin': "finite (dom (layer u'))" and ok': "glyphs_ok u' G'" and le': "?G1 \<subseteq>\<^sub>m G'"
    and dom': "dom G' = dom ?G1 \<union> inter_glyph_reuse_key ` set ls"
    and grows': "font_grows u1 u'"
    and len': "length (objects u') = length (objects u1) + sum outline_cost (dom G' - dom ?G1)"
    and acc': "map fst acc' = map fst ?acc1
               @ map (\<lambda>l. name (objects u' ! the (G' (inter_glyph_reuse_key l)))) ls"
    and pal': "colorPalettes u' = colorPalettes u1" "colorLayers u' = colorLayers u1"
    by blast+
  have g': "G' ?k = Some g" using le' by (auto simp add: map_le_def)
  have "g < length (objects u1)" using ok1 glyphs_ok_lookup [of u1 ?G1 ?k g] by simp
  then have nm: "name (objects u' ! g) = name (objects u1 ! g)"
    using grows' by (simp add: font_grows_def)
  have d1: "dom G \<subseteq> dom ?G1" by auto
  have d2: "dom ?G1 \<subseteq> dom G'" using le' by (rule map_le_implies_dom_le)
  have "dom G' - dom G \<subseteq> inter_glyph_reuse_key ` set (l # ls)" using dom' by auto
  then have finD: "finite (dom G' - dom G)" by (rule finite_subset) simp
  have new1: "sum outline_cost (dom ?G1 - dom G) = (if G ?k = None then outline_cost ?k else 0)"
  proof (cases "G ?k")
    case None
    then have "dom ?G1 - dom G = {?k}" by auto
    then show ?thesis using None by simp
  next
    case (Some r)
    then have "dom ?G1 - dom G = {}" by auto
    then show ?thesis using Some by simp
  qed
  have "length (objects u') = length (objects u) + sum outline_cost (dom G' - dom G)"
    using len' len1 new1 sum_new_keys [OF d1 d2 finD, of outline_cost] by simp
  moreover have "G \<subseteq>\<^sub>m G'" using le1 le' by (rule map_le_trans)
  moreover have "dom G' = dom G \<union> inter_glyph_reuse_key ` set (l # ls)" using dom' by auto
  moreover have "font_grows u u'" using grows1 grows' by (rule font_grows_trans)
  moreover have "map fst acc' = map fst acc
               @ map (\<lambda>l. name (objects u' ! the (G' (inter_glyph_reuse_key l)))) (l # ls)"
    using acc' g' nm by simp
  ultimately show ?case
    using fin' ok' pal' pal1 by simp
qed

lemma draw_glyph_extents_fields [simp]:
  "layer (draw_glyph_extents r u) = layer u"
  "length (objects (draw_glyph_extents r u)) = length (objects u)"
  "colorPalettes (draw_glyph_extents r u) = colorPalettes u"
  "colorLayers (draw_glyph_extents r u) = colorLayers u"
  "name (objects (draw_glyph_extents r u) ! k) = name (objects u ! k)"
  by (simp_all add: draw_glyph_extents_def update_glyph_nth)

lemma font_grows_draw_glyph_extents: "font_grows u (draw_glyph_extents r u)"
  by (simp add: font_grows_def)

lemma colr_color_glyph_effect:
  assumes run: "colr_color_glyph v pal cg (u, G, cl) = Some (Inr (u', G', cl'))"
    and fin: "finite (dom (layer u))" and ok: "glyphs_ok u G"
    and named: "layer u (glyph_name cg) = Some p" "p < length (objects u)"
      "name (objects u ! p) = glyph_name cg"
  shows "finite (dom (layer u')) \<and> glyphs_ok u' G' \<and> G \<subseteq>\<^sub>m G'
         \<and> dom G' = dom G \<union> inter_glyph_reuse_key ` set (as_painted_layers cg)
         \<and> font_grows u u'
         \<and> length (objects u') = length (objects u) + sum outline_cost (dom G' - dom G)
         \<and> (\<exists>ls. cl' = cl(glyph_name cg \<mapsto> ls)
               \<and> map fst ls = map (\<lambda>l. name (objects u' ! the (G' (inter_glyph_reuse_key l))))
                                 (as_painted_layers cg))
         \<and> colorPalettes u' = colorPalettes u \<and> colorLayers u' = colorLayers u"
proof -
  obtain u1 G1 acc1 where
    inner: "colr_layers v pal cg (as_painted_layers cg) (u, G, []) = Some (Inr (u1, G1, acc1))"
    using run by (auto simp add: colr_color_glyph_def split: option.splits sum.splits)
  from colr_layers_effect [OF inner fin ok]
  have fin1: "finite (dom (layer u1))" and ok1: "glyphs_ok u1 G1" and le1: "G \<subseteq>\<^sub>m G1"
    and dom1: "dom G1 = dom G \<union> inter_glyph_reuse_key ` set (as_painted_layers cg)"
    and grows1: "font_grows u u1"
    and len1: "length (objects u1) = length (objects u) + sum outline_cost (dom G1 - dom G)"
    and pal1: "colorPalettes u1 = colorPalettes u" "colorLayers u1 = colorLayers u"
    by blast+
  have acc1: "map fst acc1
      = map (\<lambda>l. name (objects u1 ! the (G1 (inter_glyph_reuse_key l)))) (as_painted_layers cg)"
    using colr_layers_effect [OF inner fin ok] by simp
  have lay: "layer u1 (glyph_name cg) = Some p"
    using grows1 named(1) by (simp add: font_grows_def)
  have nm: "name (objects u1 ! p) = glyph_name cg"
    using grows1 named(2,3) by (simp add: font_grows_def)
  let ?u2 = "draw_glyph_extents p u1"
  have res: "u' = ?u2" "G' = G1" "cl' = cl(glyph_name cg \<mapsto> acc1)"
    using run inner lay nm by (simp_all add: colr_color_glyph_def ufo_get_def Let_def)
  have grows2: "font_grows u ?u2"
    using grows1 font_grows_draw_glyph_extents by (rule font_grows_trans)
  have ok2: "glyphs_ok ?u2 G1"
    using ok1 font_grows_draw_glyph_extents by (rule glyphs_ok_grows)
  have "map fst acc1 = map (\<lambda>l. name (objects ?u2 ! the (G1 (inter_glyph_reuse_key l))))
                          (as_painted_layers cg)"
    using acc1 by simp
  then have "\<exists>ls. cl' = cl(glyph_name cg \<mapsto> ls)
               \<and> map fst ls = map (\<lambda>l. name (objects u' ! the (G' (inter_glyph_reuse_key l))))
                                 (as_painted_layers cg)"
    using res by (intro exI [of _ acc1]) simp
  then show ?thesis
    using res(1,2) fin1 ok2 le1 dom1 grows2 len1 pal1 by simp
qed

lemma outline_name_kept:
  assumes "glyphs_ok u1 G1" and "G1 \<subseteq>\<^sub>m G'" and "font_grows u1 u'" and "k \<in> dom G1"
  shows "name (objects u' ! the (G' k)) = name (objects u1 ! the (G1 k))"
proof -
  obtain r where r: "G1 k = Some r" using assms(4) by auto
  then have "G' k = Some r" using assms(2) by (metis map_le_def domI)
  moreover have "r < length (objects u1)" using assms(1) r glyphs_ok_lookup by blast
  ultimately show ?thesis using assms(3) r by (simp add: font_grows_def)
qed

lemma colr_color_glyphs_effect:
  assumes "colr_color_glyphs v pal gs (u, G, cl) = Some (Inr (u', G', cl'))"
    and "finite (dom (layer u))" and "glyphs_ok u G"
    and "\<forall>g \<in> set gs. \<exists>p. layer u (glyph_name g) = Some p \<and> p < length (objects u)
            \<and> name (objects u ! p) = glyph_name g"
    and "distinct (map glyph_name gs)"
  shows "glyphs_ok u' G' \<and> G \<subseteq>\<^sub>m G'
         \<and> dom G' = dom G \<union> reuse_keys gs
         \<and> font_grows u u'
         \<and> length (objects u') = length (objects u) + sum outline_cost (dom G' - dom G)
         \<and> (\<forall>g \<in> set gs. \<exists>ls. cl' (glyph_name g) = Some ls
               \<and> map fst ls = map (\<lambda>l. name (objects u' ! the (G' (inter_glyph_reuse_key l))))
                                 (as_painted_layers g))
         \<and> (\<forall>n. n \<notin> glyph_name ` set gs \<longrightarrow> cl' n = cl n)"
  using assms
proof (induction gs arbitrary: u G cl)
  case Nil
  then show ?case by (simp add: font_grows_refl reuse_keys_def)
next
  case (Cons g gs)
  obtain p where named: "layer u (glyph_name g) = Some p" "p < length (objects u)"
      "name (objects u ! p) = glyph_name g"
    using Cons.prems(4) by auto
  obtain u1 G1 cl1 where
    one: "colr_color_glyph v pal g (u, G, cl) = Some (Inr (u1, G1, cl1))" and
    rest: "colr_color_glyphs v pal gs (u1, G1, cl1) = Some (Inr (u', G', cl'))"
    using Cons.prems(1) by (auto split: option.splits sum.splits)
  from colr_color_glyph_effect [OF one Cons.prems(2,3) named]
  obtain ls where
    fin1: "finite (dom (layer u1))" and ok1: "glyphs_ok u1 G1" and le1: "G \<subseteq>\<^sub>m G1"
    and dom1: "dom G1 = dom G \<union> inter_glyph_reuse_key ` set (as_painted_layers g)"
    and grows1: "font_grows u u1"
    and len1: "length (objects u1) = length (objects u) + sum outline_cost (dom G1 - dom G)"
    and cl1: "cl1 = cl(glyph_name g \<mapsto> ls)"
    and ls: "map fst ls = map (\<lambda>l. name (objects u1 ! the (G1 (inter_glyph_reuse_key l))))
                                 (as_painted_layers g)"
    by blast
  have named1: "\<forall>g \<in> set gs. \<exists>p. layer u1 (glyph_name g) = Some p \<and> p < length (objects u1)
            \<and> name (objects u1 ! p) = glyph_name g"
  proof
    fix h assume "h \<in> set gs"
    then obtain q where q: "layer u (glyph_name h) = Some q" "q < length (objects u)"
        "name (objects u ! q) = glyph_name h"
      using Cons.prems(4) by auto
    then have "layer u1 (glyph_name h) = Some q \<and> q < length (objects u1)
        \<and> name (objects u1 ! q) = glyph_name h"
      using grows1 by (simp add: font_grows_def)
    then show "\<exists>p. layer u1 (glyph_name h) = Some p \<and> p < length (objects u1)
            \<and> name (objects u1 ! p) = glyph_name h"
      by blast
  qed
  have dist: "distinct (map glyph_name gs)" and notin: "glyph_name g \<notin> glyph_name ` set gs"
    using Cons.prems(5) by simp_all
  from Cons.IH [OF rest fin1 ok1 named1 dist]
  have ok': "glyphs_ok u' G'" and le': "G1 \<subseteq>\<^sub>m G'"
    and dom': "dom G' = dom G1 \<union> reuse_keys gs"
    and grows': "font_grows u1 u'"
    and len': "length (objects u') = length (objects u1) + sum outline_cost (dom G' - dom G1)"
    and cl': "\<forall>g \<in> set gs. \<exists>ls. cl' (glyph_name g) = Some ls
               \<and> map fst ls = map (\<lambda>l. name (objects u' ! the (G' (inter_glyph_reuse_key l))))
                                 (as_painted_layers g)"
    and frame': "\<forall>n. n \<notin> glyph_name ` set gs \<longrightarrow> cl' n = cl1 n"
    by blast+
  have d1: "dom G \<subseteq> dom G1" using le1 by (rule map_le_implies_dom_le)
  have d2: "dom G1 \<subseteq> dom G'" using le' by (rule map_le_implies_dom_le)
  have domall: "dom G' = dom G \<union> reuse_keys (g # gs)"
    using dom1 dom' by (auto simp add: reuse_keys_def)
  have "finite (reuse_keys (g # gs))" by (simp add: reuse_keys_def)
  then have finD: "finite (dom G' - dom G)"
    using domall by (auto intro: finite_subset)
  have len: "length (objects u') = length (objects u) + sum outline_cost (dom G' - dom G)"
    using len' len1 sum_new_keys [OF d1 d2 finD, of outline_cost] by simp
  have "cl' (glyph_name g) = Some ls" using frame' notin cl1 by simp
  moreover have "map fst ls = map (\<lambda>l. name (objects u' ! the (G' (inter_glyph_reuse_key l))))
                                 (as_painted_layers g)"
  proof -
    have "name (objects u' ! the (G' (inter_glyph_reuse_key l)))
          = name (objects u1 ! the (G1 (inter_glyph_reuse_key l)))"
      if "l \<in> set (as_painted_layers g)" for l
      using ok1 le' grows' by (rule outline_name_kept) (use that dom1 in auto)
    then show ?thesis using ls by simp
  qed
  ultimately have first: "\<exists>ls. cl' (glyph_name g) = Some ls
               \<and> map fst ls = map (\<lambda>l. name (objects u' ! the (G' (inter_glyph_reuse_key l))))
                                 (as_painted_layers g)"
    by blast
  have all: "\<forall>h \<in> set (g # gs). \<exists>ls. cl' (glyph_name h) = Some ls
               \<and> map fst ls = map (\<lambda>l. name (objects u' ! the (G' (inter_glyph_reuse_key l))))
                                 (as_painted_layers h)"
    using first cl' by simp
  have frame: "\<forall>n. n \<notin> glyph_name ` set (g # gs) \<longrightarrow> cl' n = cl n"
    using frame' cl1 by simp
  have "G \<subseteq>\<^sub>m G'" using le1 le' by (rule map_le_trans)
  moreover have "font_grows u u'" using grows1 grows' by (rule font_grows_trans)
  ultimately show ?case
    using ok' domall len all frame by blast
qed

lemma fresh_color_glyphs_named:
  assumes "fresh_color_glyphs u gs" and "g \<in> set gs"
  shows "\<exists>p. layer u (glyph_name g) = Some p \<and> p < length (objects u)
            \<and> name (objects u ! p) = glyph_name g \<and> components (objects u ! p) = []"
  using assms by (auto simp add: fresh_color_glyphs_def list_all_iff split: option.splits)

lemma colr_ufo_outlines:
  assumes run: "colr_ufo v u gs = Some (Inr u')"
    and fin: "finite (dom (layer u))"
    and fresh: "fresh_color_glyphs u gs"
  shows "\<exists>G. dom G = reuse_keys gs
           \<and> (\<forall>g \<in> set gs. \<forall>i < length (as_painted_layers g).
                 colr_outline u' g i = G (inter_glyph_reuse_key (as_painted_layers g ! i)))
           \<and> length (objects u') = length (objects u) + sum outline_cost (reuse_keys gs)"
proof -
  let ?pal = "colr_colors v gs"
  let ?u0 = "u\<lparr>colorPalettes := Some [map to_ufo_color ?pal]\<rparr>"
  obtain u1 G cl where
    loop: "colr_color_glyphs v ?pal gs (?u0, Map.empty, Map.empty) = Some (Inr (u1, G, cl))" and
    u': "u' = u1\<lparr>colorLayers := Some cl\<rparr>"
    using run by (auto simp add: colr_ufo_def colr_encode_def split: option.splits sum.splits)
  have fin0: "finite (dom (layer ?u0))" using fin by simp
  have ok0: "glyphs_ok ?u0 Map.empty" by (simp add: glyphs_ok_def)
  have named0: "\<forall>g \<in> set gs. \<exists>p. layer ?u0 (glyph_name g) = Some p \<and> p < length (objects ?u0)
            \<and> name (objects ?u0 ! p) = glyph_name g"
    using fresh_color_glyphs_named [OF fresh] by auto
  have dist: "distinct (map glyph_name gs)" using fresh by (simp add: fresh_color_glyphs_def)
  from colr_color_glyphs_effect [OF loop fin0 ok0 named0 dist]
  have ok1: "glyphs_ok u1 G" and dom1: "dom G = reuse_keys gs"
    and len1: "length (objects u1) = length (objects u) + sum outline_cost (dom G)"
    and cl: "\<forall>g \<in> set gs. \<exists>ls. cl (glyph_name g) = Some ls
               \<and> map fst ls = map (\<lambda>l. name (objects u1 ! the (G (inter_glyph_reuse_key l))))
                                 (as_painted_layers g)"
    by simp_all
  have out: "colr_outline u' g i = G (inter_glyph_reuse_key (as_painted_layers g ! i))"
    if g: "g \<in> set gs" and i: "i < length (as_painted_layers g)" for g i
  proof -
    let ?k = "inter_glyph_reuse_key (as_painted_layers g ! i)"
    obtain ls where ls: "cl (glyph_name g) = Some ls"
        "map fst ls = map (\<lambda>l. name (objects u1 ! the (G (inter_glyph_reuse_key l))))
                                 (as_painted_layers g)"
      using cl g by blast
    have "as_painted_layers g ! i \<in> set (as_painted_layers g)" using i by simp
    then have "?k \<in> reuse_keys gs" using g unfolding reuse_keys_def by blast
    then obtain r where r: "G ?k = Some r" using dom1 by auto
    have "length ls = length (as_painted_layers g)"
      using ls(2) by (metis length_map)
    then have "fst (ls ! i) = map fst ls ! i" using i by simp
    then have "fst (ls ! i) = name (objects u1 ! r)" using ls(2) i r by simp
    moreover have "layer u1 (name (objects u1 ! r)) = Some r"
      using ok1 r glyphs_ok_lookup by blast
    ultimately show ?thesis using ls(1) r by (simp add: colr_outline_def u')
  qed
  show ?thesis
    using dom1 out len1 by (intro exI [of _ G]) (simp add: u')
qed

subsection \<open>The palette-layered encoder returns\<close>

lemma colr_v1_paint_result:
  assumes "g \<in> set color_glyphs" and "l \<in> set (as_painted_layers g)"
  shows "(\<forall>c. paint l = PaintSolid c \<longrightarrow>
            (\<exists>i. colr_paint 1 (paint l) (colr_colors 1 color_glyphs) = Inr (UfoSolid i (alpha c))
                \<and> i < length (colr_colors 1 color_glyphs)
                \<and> colr_colors 1 color_glyphs ! i = opaque c))
       \<and> (\<forall>stops. paint l = PaintGradient stops \<longrightarrow>
            (\<exists>line. colr_paint 1 (paint l) (colr_colors 1 color_glyphs) = Inr (UfoGradient line)
                \<and> length line = length stops
                \<and> map fst line = map fst stops
                \<and> (\<forall>k < length stops.
                      fst (snd (line ! k)) < length (colr_colors 1 color_glyphs)
                      \<and> colr_colors 1 color_glyphs ! fst (snd (line ! k)) = opaque (snd (stops ! k))
                      \<and> snd (snd (line ! k)) = alpha (snd (stops ! k)))))"
proof (intro conjI allI impI)
  fix c assume p: "paint l = PaintSolid c"
  then have "c \<in> set (colors g)" using assms(2) layer_color_in_colors [of l g c] by simp
  then have "opaque c \<in> set (colr_colors 1 color_glyphs)"
    using assms(1) by (rule opaque_in_colr_colors_v1 [rotated])
  from py_index_mem [OF this]
  obtain i where i: "py_index (colr_colors 1 color_glyphs) (opaque c) = Inr i"
      "i < length (colr_colors 1 color_glyphs)" "colr_colors 1 color_glyphs ! i = opaque c"
    by blast
  have "colr_paint 1 (paint l) (colr_colors 1 color_glyphs) = Inr (UfoSolid i (alpha c))"
    using i(1) by (simp add: colr_paint_def p)
  then show "\<exists>i. colr_paint 1 (paint l) (colr_colors 1 color_glyphs) = Inr (UfoSolid i (alpha c))
                \<and> i < length (colr_colors 1 color_glyphs)
                \<and> colr_colors 1 color_glyphs ! i = opaque c"
    using i(2,3) by (intro exI [of _ i]) simp
next
  fix stops assume p: "paint l = PaintGradient stops"
  have "\<forall>s \<in> set stops. opaque (snd s) \<in> set (colr_colors 1 color_glyphs)"
  proof
    fix s assume "s \<in> set stops"
    then have "snd s \<in> set (paint_colors (paint l))" using p by auto
    then have "snd s \<in> set (colors g)" using assms(2) by (rule layer_color_in_colors [rotated])
    then show "opaque (snd s) \<in> set (colr_colors 1 color_glyphs)"
      using assms(1) by (rule opaque_in_colr_colors_v1 [rotated])
  qed
  from ufo_color_line_result [OF this]
  obtain line where line: "ufo_color_line (colr_colors 1 color_glyphs) stops = Inr line"
      "length line = length stops" "map fst line = map fst stops"
      "\<forall>k < length stops. fst (snd (line ! k)) < length (colr_colors 1 color_glyphs)
          \<and> colr_colors 1 color_glyphs ! fst (snd (line ! k)) = opaque (snd (stops ! k))
          \<and> snd (snd (line ! k)) = alpha (snd (stops ! k))"
    by blast
  have "colr_paint 1 (paint l) (colr_colors 1 color_glyphs) = Inr (UfoGradient line)"
    using line(1) by (simp add: colr_paint_def p del: ufo_color_line.simps)
  with line(2,3,4)
  show "\<exists>line. colr_paint 1 (paint l) (colr_colors 1 color_glyphs) = Inr (UfoGradient line)
                \<and> length line = length stops
                \<and> map fst line = map fst stops
                \<and> (\<forall>k < length stops.
                      fst (snd (line ! k)) < length (colr_colors 1 color_glyphs)
                      \<and> colr_colors 1 color_glyphs ! fst (snd (line ! k)) = opaque (snd (stops ! k))
                      \<and> snd (snd (line ! k)) = alpha (snd (stops ! k)))"
    by (intro exI [of _ line]) simp
qed

lemma colr_paint_returns:
  assumes "v = 0 \<or> v = 1" and "v = 0 \<longrightarrow> paints_have_colors color_glyphs"
    and "g \<in> set color_glyphs" and "l \<in> set (as_painted_layers g)"
  shows "\<exists>p. colr_paint v (paint l) (colr_colors v color_glyphs) = Inr p"
proof (cases "v = 0")
  case True
  then have "paint_colors (paint l) \<noteq> []"
    using assms(2,3,4) by (auto simp add: paints_have_colors_def list_all_iff)
  then obtain c cs where "paint_colors (paint l) = c # cs"
    by (cases "paint_colors (paint l)") auto
  from colr_v0_first_color [OF assms(3,4) this] show ?thesis using True by blast
next
  case False
  then have v: "v = 1" using assms(1) by simp
  show ?thesis
  proof (cases "paint l")
    case (PaintSolid c)
    then show ?thesis using colr_v1_paint_result [OF assms(3,4)] v by blast
  next
    case (PaintGradient stops)
    then show ?thesis using colr_v1_paint_result [OF assms(3,4)] v by blast
  qed
qed

lemma colr_layers_returns:
  assumes "finite (dom (layer u))" and "glyphs_ok u G"
    and "\<forall>l \<in> set ls. \<exists>p. colr_paint v (paint l) pal = Inr p"
  shows "\<exists>u' G' acc'. colr_layers v pal cg ls (u, G, acc) = Some (Inr (u', G', acc'))
           \<and> map (\<lambda>e. Inr (snd e)) acc'
               = map (\<lambda>e. Inr (snd e)) acc @ map (\<lambda>l. colr_paint v (paint l) pal) ls"
  using assms
proof (induction ls arbitrary: u G acc)
  case Nil
  then show ?case by simp
next
  case (Cons l ls)
  let ?k = "inter_glyph_reuse_key l"
  from reuse_or_create_effect [OF Cons.prems(1,2), of cg l]
  obtain g u1 where
    r: "reuse_or_create u G cg l = Some (Inr (g, u1, G(?k \<mapsto> g)))" and
    fin1: "finite (dom (layer u1))" and
    ok1: "glyphs_ok u1 (G(?k \<mapsto> g))"
    by blast
  obtain p where p: "colr_paint v (paint l) pal = Inr p" using Cons.prems(3) by auto
  have rest: "\<forall>l \<in> set ls. \<exists>p. colr_paint v (paint l) pal = Inr p" using Cons.prems(3) by simp
  from Cons.IH [OF fin1 ok1 rest, of "acc @ [(name (objects u1 ! g), p)]"]
  obtain u' G' acc' where
    run: "colr_layers v pal cg ls (u1, G(?k \<mapsto> g), acc @ [(name (objects u1 ! g), p)])
            = Some (Inr (u', G', acc'))" and
    snds: "map (\<lambda>e. Inr (snd e)) acc'
               = map (\<lambda>e. Inr (snd e)) (acc @ [(name (objects u1 ! g), p)])
                   @ map (\<lambda>l. colr_paint v (paint l) pal) ls"
    by blast
  have "colr_layers v pal cg (l # ls) (u, G, acc) = Some (Inr (u', G', acc'))"
    using r p run by simp
  moreover have "map (\<lambda>e. Inr (snd e)) acc'
               = map (\<lambda>e. Inr (snd e)) acc @ map (\<lambda>l. colr_paint v (paint l) pal) (l # ls)"
    using snds p by simp
  ultimately show ?case by blast
qed

lemma colr_color_glyph_returns:
  assumes fin: "finite (dom (layer u))" and ok: "glyphs_ok u G"
    and named: "layer u (glyph_name cg) = Some p" "p < length (objects u)"
      "name (objects u ! p) = glyph_name cg"
    and enc: "\<forall>l \<in> set (as_painted_layers cg). \<exists>p. colr_paint v (paint l) pal = Inr p"
  shows "\<exists>u' G' ls. colr_color_glyph v pal cg (u, G, cl) = Some (Inr (u', G', cl(glyph_name cg \<mapsto> ls)))
           \<and> map (\<lambda>e. Inr (snd e)) ls = map (\<lambda>l. colr_paint v (paint l) pal) (as_painted_layers cg)
           \<and> map fst ls = map (\<lambda>l. name (objects u' ! the (G' (inter_glyph_reuse_key l))))
                                 (as_painted_layers cg)"
proof -
  from colr_layers_returns [OF fin ok enc, of cg "[]"]
  obtain u1 G1 acc1 where
    inner: "colr_layers v pal cg (as_painted_layers cg) (u, G, []) = Some (Inr (u1, G1, acc1))" and
    snds: "map (\<lambda>e. Inr (snd e)) acc1 = map (\<lambda>l. colr_paint v (paint l) pal) (as_painted_layers cg)"
    by auto
  from colr_layers_effect [OF inner fin ok]
  have grows1: "font_grows u u1"
    and fsts: "map fst acc1
      = map (\<lambda>l. name (objects u1 ! the (G1 (inter_glyph_reuse_key l)))) (as_painted_layers cg)"
    by simp_all
  have lay: "layer u1 (glyph_name cg) = Some p"
    using grows1 named(1) by (simp add: font_grows_def)
  have nm: "name (objects u1 ! p) = glyph_name cg"
    using grows1 named(2,3) by (simp add: font_grows_def)
  let ?u2 = "draw_glyph_extents p u1"
  have "colr_color_glyph v pal cg (u, G, cl) = Some (Inr (?u2, G1, cl(glyph_name cg \<mapsto> acc1)))"
    using inner lay nm by (simp add: colr_color_glyph_def ufo_get_def Let_def)
  moreover have "map fst acc1
      = map (\<lambda>l. name (objects ?u2 ! the (G1 (inter_glyph_reuse_key l)))) (as_painted_layers cg)"
    using fsts by simp
  ultimately show ?thesis using snds by blast
qed

lemma colr_color_glyphs_returns:
  assumes "finite (dom (layer u))" and "glyphs_ok u G"
    and "\<forall>g \<in> set gs. \<exists>p. layer u (glyph_name g) = Some p \<and> p < length (objects u)
            \<and> name (objects u ! p) = glyph_name g"
    and "distinct (map glyph_name gs)"
    and "\<forall>g \<in> set gs. \<forall>l \<in> set (as_painted_layers g). \<exists>p. colr_paint v (paint l) pal = Inr p"
  shows "\<exists>u' G' cl'. colr_color_glyphs v pal gs (u, G, cl) = Some (Inr (u', G', cl'))
           \<and> (\<forall>g \<in> set gs. \<exists>ls. cl' (glyph_name g) = Some ls
                 \<and> map (\<lambda>e. Inr (snd e)) ls
                     = map (\<lambda>l. colr_paint v (paint l) pal) (as_painted_layers g))
           \<and> (\<forall>n. n \<notin> glyph_name ` set gs \<longrightarrow> cl' n = cl n)
           \<and> colorPalettes u' = colorPalettes u \<and> colorLayers u' = colorLayers u"
  using assms
proof (induction gs arbitrary: u G cl)
  case Nil
  then show ?case by simp
next
  case (Cons g gs)
  obtain p where named: "layer u (glyph_name g) = Some p" "p < length (objects u)"
      "name (objects u ! p) = glyph_name g"
    using Cons.prems(3) by auto
  have enc: "\<forall>l \<in> set (as_painted_layers g). \<exists>p. colr_paint v (paint l) pal = Inr p"
    using Cons.prems(5) by simp
  from colr_color_glyph_returns [OF Cons.prems(1,2) named enc, of cl]
  obtain u1 G1 ls where
    one: "colr_color_glyph v pal g (u, G, cl) = Some (Inr (u1, G1, cl(glyph_name g \<mapsto> ls)))" and
    snds: "map (\<lambda>e. Inr (snd e)) ls = map (\<lambda>l. colr_paint v (paint l) pal) (as_painted_layers g)"
    by blast
  from colr_color_glyph_effect [OF one Cons.prems(1,2) named]
  have fin1: "finite (dom (layer u1))" and ok1: "glyphs_ok u1 G1"
    and grows1: "font_grows u u1"
    and pal1: "colorPalettes u1 = colorPalettes u" "colorLayers u1 = colorLayers u"
    by blast+
  have named1: "\<forall>g \<in> set gs. \<exists>p. layer u1 (glyph_name g) = Some p \<and> p < length (objects u1)
            \<and> name (objects u1 ! p) = glyph_name g"
  proof
    fix h assume "h \<in> set gs"
    then obtain q where q: "layer u (glyph_name h) = Some q" "q < length (objects u)"
        "name (objects u ! q) = glyph_name h"
      using Cons.prems(3) by auto
    then have "layer u1 (glyph_name h) = Some q \<and> q < length (objects u1)
        \<and> name (objects u1 ! q) = glyph_name h"
      using grows1 by (simp add: font_grows_def)
    then show "\<exists>p. layer u1 (glyph_name h) = Some p \<and> p < length (objects u1)
            \<and> name (objects u1 ! p) = glyph_name h"
      by blast
  qed
  have dist: "distinct (map glyph_name gs)" and notin: "glyph_name g \<notin> glyph_name ` set gs"
    using Cons.prems(4) by simp_all
  have enc1: "\<forall>g \<in> set gs. \<forall>l \<in> set (as_painted_layers g). \<exists>p. colr_paint v (paint l) pal = Inr p"
    using Cons.prems(5) by simp
  from Cons.IH [OF fin1 ok1 named1 dist enc1, of "cl(glyph_name g \<mapsto> ls)"]
  obtain u' G' cl' where
    rest: "colr_color_glyphs v pal gs (u1, G1, cl(glyph_name g \<mapsto> ls)) = Some (Inr (u', G', cl'))" and
    each: "\<forall>g \<in> set gs. \<exists>ls. cl' (glyph_name g) = Some ls
                 \<and> map (\<lambda>e. Inr (snd e)) ls
                     = map (\<lambda>l. colr_paint v (paint l) pal) (as_painted_layers g)" and
    frame: "\<forall>n. n \<notin> glyph_name ` set gs \<longrightarrow> cl' n = (cl(glyph_name g \<mapsto> ls)) n" and
    pal': "colorPalettes u' = colorPalettes u1" "colorLayers u' = colorLayers u1"
    by (elim exE conjE) (rule that; assumption)
  have run: "colr_color_glyphs v pal (g # gs) (u, G, cl) = Some (Inr (u', G', cl'))"
    using one rest by simp
  have first: "cl' (glyph_name g) = Some ls" using frame notin by simp
  have all: "\<forall>h \<in> set (g # gs). \<exists>ls. cl' (glyph_name h) = Some ls
                 \<and> map (\<lambda>e. Inr (snd e)) ls
                     = map (\<lambda>l. colr_paint v (paint l) pal) (as_painted_layers h)"
    using first snds each by simp
  have frame2: "\<forall>n. n \<notin> glyph_name ` set (g # gs) \<longrightarrow> cl' n = cl n"
    using frame by simp
  have pals: "colorPalettes u' = colorPalettes u \<and> colorLayers u' = colorLayers u"
    using pal' pal1 by simp
  show ?case
    using run all frame2 pals by (intro exI [of _ u'] exI [of _ G'] exI [of _ cl'] conjI) blast+
qed

lemma colr_ufo_returns:
  assumes fin: "finite (dom (layer u))" and fresh: "fresh_color_glyphs u gs"
    and v: "v = 0 \<or> v = 1" and cols: "v = 0 \<longrightarrow> paints_have_colors gs"
  shows "\<exists>u' cl. colr_ufo v u gs = Some (Inr u')
           \<and> colorPalettes u' = Some [map to_ufo_color (colr_colors v gs)]
           \<and> colorLayers u' = Some cl
           \<and> (\<forall>g \<in> set gs. \<exists>ls. cl (glyph_name g) = Some ls
                 \<and> map (\<lambda>e. Inr (snd e)) ls
                     = map (\<lambda>l. colr_paint v (paint l) (colr_colors v gs)) (as_painted_layers g))
           \<and> (\<forall>n. n \<notin> glyph_name ` set gs \<longrightarrow> cl n = None)"
proof -
  let ?pal = "colr_colors v gs"
  let ?u0 = "u\<lparr>colorPalettes := Some [map to_ufo_color ?pal]\<rparr>"
  have fin0: "finite (dom (layer ?u0))" using fin by simp
  have ok0: "glyphs_ok ?u0 Map.empty" by (simp add: glyphs_ok_def)
  have named0: "\<forall>g \<in> set gs. \<exists>p. layer ?u0 (glyph_name g) = Some p \<and> p < length (objects ?u0)
            \<and> name (objects ?u0 ! p) = glyph_name g"
    using fresh_color_glyphs_named [OF fresh] by auto
  have dist: "distinct (map glyph_name gs)" using fresh by (simp add: fresh_color_glyphs_def)
  have enc: "\<forall>g \<in> set gs. \<forall>l \<in> set (as_painted_layers g). \<exists>p. colr_paint v (paint l) ?pal = Inr p"
    using colr_paint_returns [OF v cols] by blast
  from colr_color_glyphs_returns [OF fin0 ok0 named0 dist enc, of Map.empty]
  obtain u1 G cl where
    loop: "colr_color_glyphs v ?pal gs (?u0, Map.empty, Map.empty) = Some (Inr (u1, G, cl))" and
    each: "\<forall>g \<in> set gs. \<exists>ls. cl (glyph_name g) = Some ls
                 \<and> map (\<lambda>e. Inr (snd e)) ls
                     = map (\<lambda>l. colr_paint v (paint l) ?pal) (as_painted_layers g)" and
    frame: "\<forall>n. n \<notin> glyph_name ` set gs \<longrightarrow> cl n = Map.empty n" and
    pal: "colorPalettes u1 = colorPalettes ?u0"
    by (elim exE conjE) (rule that; assumption)
  have run: "colr_ufo v u gs = Some (Inr (u1\<lparr>colorLayers := Some cl\<rparr>))"
    using loop by (simp add: colr_ufo_def colr_encode_def)
  have p: "colorPalettes (u1\<lparr>colorLayers := Some cl\<rparr>) = Some [map to_ufo_color ?pal]"
    using pal by simp
  have l: "colorLayers (u1\<lparr>colorLayers := Some cl\<rparr>) = Some cl" by simp
  have f: "\<forall>n. n \<notin> glyph_name ` set gs \<longrightarrow> cl n = None" using frame by simp
  show ?thesis
    using run p l each f
    by (intro exI [of _ "u1\<lparr>colorLayers := Some cl\<rparr>"] exI [of _ cl] conjI) assumption+
qed

subsection \<open>The composite outline encoder reuses outlines\<close>

lemma outlines_ok_lookup:
  "outlines_ok n0 u G S \<Longrightarrow> G k = Some r \<Longrightarrow>
     n0 \<le> r \<and> r < length (objects u) \<and> layer u (name (objects u ! r)) = Some r
     \<and> name (objects u ! r) \<notin> S"
  unfolding outlines_ok_def by blast

lemma outlines_ok_glyphs_ok: "outlines_ok n0 u G S \<Longrightarrow> glyphs_ok u G"
  unfolding outlines_ok_def glyphs_ok_def by blast

lemma glyf_layers_effect:
  assumes "finite (dom (layer u))"
    and "outlines_ok n0 u G S"
    and "S \<subseteq> dom (layer u)"
    and "n0 \<le> length (objects u)"
    and "p < n0"
  shows "\<exists>u' G' cs. glyf_layers cg (Some p) ls (u, G) = Some (Inr (u', G'))
     \<and> finite (dom (layer u')) \<and> outlines_ok n0 u' G' S \<and> G \<subseteq>\<^sub>m G'
     \<and> dom G' = dom G \<union> inter_glyph_reuse_key ` set ls
     \<and> length (objects u') = length (objects u) + sum outline_cost (dom G' - dom G)
     \<and> (\<forall>r < length (objects u). r \<noteq> p \<longrightarrow> objects u' ! r = objects u ! r)
     \<and> objects u' ! p = (objects u ! p)\<lparr>components := components (objects u ! p) @ cs\<rparr>
     \<and> length cs = length ls
     \<and> (\<forall>i < length ls. layer u' (baseGlyph (cs ! i)) = G' (inter_glyph_reuse_key (ls ! i))
            \<and> G' (inter_glyph_reuse_key (ls ! i)) \<noteq> None \<and> baseGlyph (cs ! i) \<notin> S)
     \<and> (\<forall>m. layer u m \<noteq> None \<longrightarrow> layer u' m = layer u m)"
  using assms
proof (induction ls arbitrary: u G)
  case Nil
  show ?case
    using Nil.prems by (intro exI [of _ u] exI [of _ G] exI [of _ "[]"]) simp
next
  case (Cons l ls)
  let ?k = "inter_glyph_reuse_key l"
  have gok: "glyphs_ok u G" using Cons.prems(2) by (rule outlines_ok_glyphs_ok)
  from reuse_or_create_effect [OF Cons.prems(1) gok, of cg l]
  obtain g u1 where
    r: "reuse_or_create u G cg l = Some (Inr (g, u1, G(?k \<mapsto> g)))" and
    seen: "\<forall>r. G ?k = Some r \<longrightarrow> g = r \<and> u1 = u" and
    new: "G ?k = None \<longrightarrow> g = length (objects u) \<and> layer u (name (objects u1 ! g)) = None" and
    fin1: "finite (dom (layer u1))" and
    ok1: "glyphs_ok u1 (G(?k \<mapsto> g))" and
    len1: "length (objects u1) = length (objects u)
            + (if G ?k = None then outline_cost ?k else 0)" and
    obj1: "\<forall>r < length (objects u). objects u1 ! r = objects u ! r" and
    lay1: "\<forall>m. layer u m \<noteq> None \<longrightarrow> layer u1 m = layer u m"
    by (elim exE conjE) (rule that; assumption)
  let ?G1 = "G(?k \<mapsto> g)"
  let ?c = "\<lparr>baseGlyph = name (objects u1 ! g), transformation = identity\<rparr>"
  let ?u2 = "append_component p ?c u1"
  have step: "glyf_layers cg (Some p) (l # ls) (u, G) = glyf_layers cg (Some p) ls (?u2, ?G1)"
    using r by simp
  have pu: "p < length (objects u)" using Cons.prems(4,5) by simp
  have le01: "length (objects u) \<le> length (objects u1)" using len1 by simp
  have pu1: "p < length (objects u1)" using pu le01 by simp
  have fin2: "finite (dom (layer ?u2))" using fin1 by simp
  have n02: "n0 \<le> length (objects ?u2)" using Cons.prems(4) le01 by simp
  have S2: "S \<subseteq> dom (layer ?u2)"
  proof
    fix m assume "m \<in> S"
    then have "layer u m \<noteq> None" using Cons.prems(3) by auto
    then have "layer u1 m = layer u m" using lay1 by simp
    then show "m \<in> dom (layer ?u2)" using \<open>layer u m \<noteq> None\<close> by auto
  qed
  have le1: "G \<subseteq>\<^sub>m ?G1" using seen by (auto simp add: map_le_def)
  have gn0: "n0 \<le> g"
  proof (cases "G ?k")
    case None
    then show ?thesis using new Cons.prems(4) by simp
  next
    case (Some r)
    then show ?thesis using seen outlines_ok_lookup [OF Cons.prems(2) Some] by simp
  qed
  have gS: "name (objects u1 ! g) \<notin> S"
  proof (cases "G ?k")
    case None
    then have "layer u (name (objects u1 ! g)) = None" using new by blast
    then show ?thesis using Cons.prems(3) by auto
  next
    case (Some r)
    then have "g = r" "u1 = u" using seen by simp_all
    then show ?thesis using outlines_ok_lookup [OF Cons.prems(2) Some] by simp
  qed
  have g1: "g < length (objects u1)" "layer u1 (name (objects u1 ! g)) = Some g"
    using glyphs_ok_lookup [OF ok1, of ?k g] by simp_all
  have ok2: "outlines_ok n0 ?u2 ?G1 S"
    unfolding outlines_ok_def
  proof (intro allI impI)
    fix k' r' assume a: "?G1 k' = Some r'"
    have b: "r' < length (objects u1)" "layer u1 (name (objects u1 ! r')) = Some r'"
      using glyphs_ok_lookup [OF ok1 a] by simp_all
    have c: "n0 \<le> r' \<and> name (objects u1 ! r') \<notin> S"
    proof (cases "k' = ?k")
      case True
      then have "r' = g" using a by simp
      then show ?thesis using gn0 gS by simp
    next
      case False
      then have old: "G k' = Some r'" using a by simp
      from outlines_ok_lookup [OF Cons.prems(2) old]
      have "n0 \<le> r'" "r' < length (objects u)" "name (objects u ! r') \<notin> S" by simp_all
      then show ?thesis using obj1 by simp
    qed
    then have "r' \<noteq> p" using Cons.prems(5) by auto
    then have "objects ?u2 ! r' = objects u1 ! r'" by (simp add: append_component_nth)
    then show "n0 \<le> r' \<and> r' < length (objects ?u2)
        \<and> layer ?u2 (name (objects ?u2 ! r')) = Some r' \<and> name (objects ?u2 ! r') \<notin> S"
      using b c by simp
  qed
  from Cons.IH [OF fin2 ok2 S2 n02 Cons.prems(5)]
  obtain u' G' cs' where
    run': "glyf_layers cg (Some p) ls (?u2, ?G1) = Some (Inr (u', G'))" and
    fin': "finite (dom (layer u'))" and ok': "outlines_ok n0 u' G' S" and le': "?G1 \<subseteq>\<^sub>m G'" and
    dom': "dom G' = dom ?G1 \<union> inter_glyph_reuse_key ` set ls" and
    len': "length (objects u') = length (objects ?u2) + sum outline_cost (dom G' - dom ?G1)" and
    obj': "\<forall>r < length (objects ?u2). r \<noteq> p \<longrightarrow> objects u' ! r = objects ?u2 ! r" and
    par': "objects u' ! p = (objects ?u2 ! p)\<lparr>components := components (objects ?u2 ! p) @ cs'\<rparr>" and
    lcs': "length cs' = length ls" and
    refs': "\<forall>i < length ls. layer u' (baseGlyph (cs' ! i)) = G' (inter_glyph_reuse_key (ls ! i))
            \<and> G' (inter_glyph_reuse_key (ls ! i)) \<noteq> None \<and> baseGlyph (cs' ! i) \<notin> S" and
    lay': "\<forall>m. layer ?u2 m \<noteq> None \<longrightarrow> layer u' m = layer ?u2 m"
    by (elim exE conjE) (rule that; assumption)
  let ?cs = "?c # cs'"
  have g': "G' ?k = Some g" using le' by (metis map_le_def domI fun_upd_same)
  have d1: "dom G \<subseteq> dom ?G1" by auto
  have d2: "dom ?G1 \<subseteq> dom G'" using le' by (rule map_le_implies_dom_le)
  have "dom G' - dom G \<subseteq> inter_glyph_reuse_key ` set (l # ls)" using dom' by auto
  then have finD: "finite (dom G' - dom G)" by (rule finite_subset) simp
  have new1: "sum outline_cost (dom ?G1 - dom G) = (if G ?k = None then outline_cost ?k else 0)"
  proof (cases "G ?k")
    case None
    then have "dom ?G1 - dom G = {?k}" by auto
    then show ?thesis using None by simp
  next
    case (Some r)
    then have "dom ?G1 - dom G = {}" by auto
    then show ?thesis using Some by simp
  qed
  have len: "length (objects u') = length (objects u) + sum outline_cost (dom G' - dom G)"
    using len' len1 new1 sum_new_keys [OF d1 d2 finD, of outline_cost] by simp
  have objs: "\<forall>r < length (objects u). r \<noteq> p \<longrightarrow> objects u' ! r = objects u ! r"
  proof (intro allI impI)
    fix r assume r: "r < length (objects u)" "r \<noteq> p"
    then have "objects u' ! r = objects ?u2 ! r" using obj' le01 by simp
    also have "\<dots> = objects u1 ! r" using r by (simp add: append_component_nth)
    also have "\<dots> = objects u ! r" using obj1 r by simp
    finally show "objects u' ! r = objects u ! r" .
  qed
  have "objects ?u2 ! p = (objects u ! p)\<lparr>components := components (objects u ! p) @ [?c]\<rparr>"
    using pu pu1 obj1 by (simp add: append_component_nth)
  then have par: "objects u' ! p = (objects u ! p)\<lparr>components := components (objects u ! p) @ ?cs\<rparr>"
    using par' by simp
  have lay2: "layer ?u2 (name (objects u1 ! g)) = Some g" using g1 by simp
  then have lay_g: "layer u' (name (objects u1 ! g)) = Some g" using lay' by simp
  have refs: "\<forall>i < length (l # ls). layer u' (baseGlyph (?cs ! i)) = G' (inter_glyph_reuse_key ((l # ls) ! i))
            \<and> G' (inter_glyph_reuse_key ((l # ls) ! i)) \<noteq> None \<and> baseGlyph (?cs ! i) \<notin> S"
  proof (intro allI impI)
    fix i assume i: "i < length (l # ls)"
    show "layer u' (baseGlyph (?cs ! i)) = G' (inter_glyph_reuse_key ((l # ls) ! i))
            \<and> G' (inter_glyph_reuse_key ((l # ls) ! i)) \<noteq> None \<and> baseGlyph (?cs ! i) \<notin> S"
    proof (cases i)
      case 0
      then show ?thesis using lay_g g' gS by simp
    next
      case (Suc j)
      then show ?thesis using refs' i by simp
    qed
  qed
  have lay: "\<forall>m. layer u m \<noteq> None \<longrightarrow> layer u' m = layer u m"
  proof (intro allI impI)
    fix m assume m: "layer u m \<noteq> None"
    then have "layer ?u2 m = layer u m" using lay1 by simp
    then show "layer u' m = layer u m" using lay' m by simp
  qed
  have "G \<subseteq>\<^sub>m G'" using le1 le' by (rule map_le_trans)
  moreover have "dom G' = dom G \<union> inter_glyph_reuse_key ` set (l # ls)" using dom' by auto
  moreover have "glyf_layers cg (Some p) (l # ls) (u, G) = Some (Inr (u', G'))"
    using step run' by simp
  moreover have "length ?cs = length (l # ls)" using lcs' by simp
  ultimately show ?case
    using fin' ok' len objs par refs lay
    by (intro exI [of _ u'] exI [of _ G'] exI [of _ ?cs]) blast
qed

lemma outlines_ok_mono: "outlines_ok n0 u G S \<Longrightarrow> T \<subseteq> S \<Longrightarrow> outlines_ok n0 u G T"
  unfolding outlines_ok_def by blast

lemma ufo_setitem_fields [simp]:
  "layer (ufo_setitem u n r) = (layer u)(n \<mapsto> r)"
  "length (objects (ufo_setitem u n r)) = length (objects u)"
  by (simp_all add: ufo_setitem_def)

lemma ufo_setitem_nth:
  "objects (ufo_setitem u n r) ! k =
     (if k = r \<and> r < length (objects u) then (objects u ! r)\<lparr>name := n\<rparr> else objects u ! k)"
  by (cases "r < length (objects u)") (simp_all add: ufo_setitem_def nth_list_update list_update_beyond)

lemma glyf_done_okI_multi:
  assumes "length (as_painted_layers g) \<noteq> 1"
    and "layer u (glyph_name g) = Some p" and "p < n0" and "p < length (objects u)"
    and "name (objects u ! p) = glyph_name g"
    and "length (components (objects u ! p)) = length (as_painted_layers g)"
    and "\<forall>i < length (as_painted_layers g).
                    layer u (baseGlyph (components (objects u ! p) ! i))
                      = G (inter_glyph_reuse_key (as_painted_layers g ! i))
                    \<and> G (inter_glyph_reuse_key (as_painted_layers g ! i)) \<noteq> None
                    \<and> baseGlyph (components (objects u ! p) ! i) \<notin> S"
  shows "glyf_done_ok n0 u G S g"
  using assms unfolding glyf_done_ok_def by auto

lemma glyf_color_glyph_effect:
  assumes fin: "finite (dom (layer u))"
    and ok: "outlines_ok n0 u G (glyph_name ` set (cur # todo))"
    and n0: "n0 \<le> length (objects u)"
    and todo_ok: "\<forall>g \<in> set (cur # todo). glyf_todo_ok n0 u g"
    and dist: "distinct (map glyph_name (cur # todo))"
    and done_ok: "\<forall>g \<in> set dn. glyf_done_ok n0 u G (glyph_name ` set (cur # todo)) g"
    and dn_names: "glyph_name ` set dn \<inter> glyph_name ` set (cur # todo) = {}"
  shows "\<exists>u' G'. glyf_color_glyph cur (u, G) = Some (Inr (u', G'))
     \<and> finite (dom (layer u')) \<and> outlines_ok n0 u' G' (glyph_name ` set todo)
     \<and> n0 \<le> length (objects u')
     \<and> (\<forall>g \<in> set todo. glyf_todo_ok n0 u' g)
     \<and> (\<forall>g \<in> set (cur # dn). glyf_done_ok n0 u' G' (glyph_name ` set todo) g)
     \<and> G \<subseteq>\<^sub>m G' \<and> dom G' = dom G \<union> inter_glyph_reuse_key ` set (as_painted_layers cur)
     \<and> length (objects u') = length (objects u) + sum outline_cost (dom G' - dom G)"
proof -
  let ?S = "glyph_name ` set (cur # todo)"
  let ?T = "glyph_name ` set todo"
  let ?ls = "as_painted_layers cur"
  let ?c = "glyph_name cur"
  obtain p where p: "layer u ?c = Some p" "p < n0" "p < length (objects u)"
      "name (objects u ! p) = ?c" "components (objects u ! p) = []"
    using todo_ok unfolding glyf_todo_ok_def by auto
  have S: "?S \<subseteq> dom (layer u)"
  proof
    fix m assume "m \<in> ?S"
    then obtain g where g: "g \<in> set (cur # todo)" "m = glyph_name g" by auto
    then have "glyf_todo_ok n0 u g" using todo_ok by blast
    then show "m \<in> dom (layer u)" using g(2) unfolding glyf_todo_ok_def by auto
  qed
  from glyf_layers_effect [OF fin ok S n0 p(2), of cur ?ls]
  obtain u1 G1 cs where
    run1: "glyf_layers cur (Some p) ?ls (u, G) = Some (Inr (u1, G1))" and
    fin1: "finite (dom (layer u1))" and ok1: "outlines_ok n0 u1 G1 ?S" and le1: "G \<subseteq>\<^sub>m G1" and
    dom1: "dom G1 = dom G \<union> inter_glyph_reuse_key ` set ?ls" and
    len1: "length (objects u1) = length (objects u) + sum outline_cost (dom G1 - dom G)" and
    obj1: "\<forall>r < length (objects u). r \<noteq> p \<longrightarrow> objects u1 ! r = objects u ! r" and
    par1: "objects u1 ! p = (objects u ! p)\<lparr>components := components (objects u ! p) @ cs\<rparr>" and
    lcs: "length cs = length ?ls" and
    refs1: "\<forall>i < length ?ls. layer u1 (baseGlyph (cs ! i)) = G1 (inter_glyph_reuse_key (?ls ! i))
            \<and> G1 (inter_glyph_reuse_key (?ls ! i)) \<noteq> None \<and> baseGlyph (cs ! i) \<notin> ?S" and
    lay1: "\<forall>m. layer u m \<noteq> None \<longrightarrow> layer u1 m = layer u m"
    by (elim exE conjE) (rule that; assumption)
  have comps: "components (objects u1 ! p) = cs" using par1 p(5) by simp
  have pname1: "name (objects u1 ! p) = ?c" using par1 p(4) by simp
  have le01: "length (objects u) \<le> length (objects u1)" using len1 by simp
  have cT: "?c \<notin> ?T" using dist by auto
  have TS: "?T \<subseteq> ?S" by auto
  text \<open>The font after the collapse, if there is one.\<close>
  define u2 where "u2 =
     (if length cs = 1 then ufo_setitem u1 ?c (the (G1 (inter_glyph_reuse_key (?ls ! 0)))) else u1)"
  have res: "glyf_color_glyph cur (u, G) = Some (Inr (u2, G1))"
  proof (cases "length cs = 1")
    case True
    then have "0 < length ?ls" using lcs by simp
    then obtain r where r: "G1 (inter_glyph_reuse_key (?ls ! 0)) = Some r"
        "layer u1 (baseGlyph (cs ! 0)) = Some r"
      using refs1 by fastforce
    then show ?thesis
      using True run1 p(1) comps
      by (simp add: glyf_color_glyph_def ufo_get_def ufo_getitem_def u2_def)
  next
    case False
    then show ?thesis
      using run1 p(1) comps by (simp add: glyf_color_glyph_def ufo_get_def u2_def)
  qed
  have f3: "length (objects u2) = length (objects u1)" by (simp add: u2_def)
  have f1: "layer u2 m = layer u1 m" if "m \<noteq> ?c" for m
    using that by (simp add: u2_def)
  have f2: "objects u2 ! q = objects u1 ! q" if "q < n0" for q
  proof (cases "length cs = 1")
    case True
    then have "0 < length ?ls" using lcs by simp
    then obtain r where r: "G1 (inter_glyph_reuse_key (?ls ! 0)) = Some r"
      using refs1 by fastforce
    then have "n0 \<le> r" using outlines_ok_lookup [OF ok1 r] by simp
    then have "q \<noteq> r" using that by simp
    then show ?thesis using True r by (simp add: u2_def ufo_setitem_nth)
  next
    case False
    then show ?thesis by (simp add: u2_def)
  qed
  have fin2: "finite (dom (layer u2))" using fin1 by (simp add: u2_def)
  have ok2: "outlines_ok n0 u2 G1 ?T"
  proof (cases "length cs = 1")
    case False
    then have "u2 = u1" by (simp add: u2_def)
    then show ?thesis using outlines_ok_mono [OF ok1 TS] by simp
  next
    case True
    then have "0 < length ?ls" using lcs by simp
    then obtain r where r: "G1 (inter_glyph_reuse_key (?ls ! 0)) = Some r"
      using refs1 by fastforce
    have u2: "u2 = ufo_setitem u1 ?c r" using True r by (simp add: u2_def)
    have rl: "r < length (objects u1)" using outlines_ok_lookup [OF ok1 r] by simp
    show ?thesis
      unfolding outlines_ok_def
    proof (intro allI impI)
      fix k' r' assume a: "G1 k' = Some r'"
      from outlines_ok_lookup [OF ok1 a]
      have b: "n0 \<le> r'" "r' < length (objects u1)" "layer u1 (name (objects u1 ! r')) = Some r'"
          "name (objects u1 ! r') \<notin> ?S"
        by simp_all
      show "n0 \<le> r' \<and> r' < length (objects u2)
          \<and> layer u2 (name (objects u2 ! r')) = Some r' \<and> name (objects u2 ! r') \<notin> ?T"
      proof (cases "r' = r")
        case True
        then show ?thesis using b rl cT by (simp add: u2 ufo_setitem_nth)
      next
        case False
        have "name (objects u1 ! r') \<noteq> ?c" using b(4) by auto
        moreover have "name (objects u1 ! r') \<notin> ?T" using b(4) by auto
        ultimately show ?thesis using False b by (simp add: u2 ufo_setitem_nth)
      qed
    qed
  qed
  text \<open>The objects of the color glyphs other than the current one are not touched.\<close>
  have other: "layer u2 (glyph_name g) = Some q \<and> objects u2 ! q = objects u ! q
      \<and> q < length (objects u2)"
    if "layer u (glyph_name g) = Some q" "q < n0" "q < length (objects u)"
      "name (objects u ! q) = glyph_name g" "glyph_name g \<noteq> ?c" for g q
  proof -
    have "q \<noteq> p" using that(4,5) p(4) by auto
    then have "objects u1 ! q = objects u ! q" using obj1 that(3) by simp
    moreover have "layer u1 (glyph_name g) = Some q" using lay1 that(1) by simp
    ultimately show ?thesis using f1 [OF that(5)] f2 [OF that(2)] f3 that(3) le01 by simp
  qed
  have todo2: "\<forall>g \<in> set todo. glyf_todo_ok n0 u2 g"
  proof
    fix g assume g: "g \<in> set todo"
    then have "glyf_todo_ok n0 u g" using todo_ok by simp
    then obtain q where q: "layer u (glyph_name g) = Some q" "q < n0" "q < length (objects u)"
        "name (objects u ! q) = glyph_name g" "components (objects u ! q) = []"
      unfolding glyf_todo_ok_def by auto
    have "glyph_name g \<noteq> ?c" using g cT by (metis image_eqI)
    from other [OF q(1-4) this] show "glyf_todo_ok n0 u2 g"
      using q unfolding glyf_todo_ok_def by (intro exI [of _ q]) simp
  qed
  have keep: "G1 k = G k" if "G k \<noteq> None" for k
    using le1 that by (metis map_le_def domIff)
  have base: "layer u2 b = layer u b" if "layer u b \<noteq> None" "b \<notin> ?S" for b
  proof -
    have "b \<noteq> ?c" using that(2) by auto
    then show ?thesis using f1 lay1 that(1) by simp
  qed
  have done_old: "glyf_done_ok n0 u2 G1 ?T g" if g: "g \<in> set dn" for g
  proof -
    have d: "glyf_done_ok n0 u G ?S g" using done_ok g by simp
    have "glyph_name g \<in> glyph_name ` set dn" using g by (rule imageI)
    then have gc: "glyph_name g \<notin> ?S" using dn_names by blast
    then have gne: "glyph_name g \<noteq> ?c" by auto
    show ?thesis
    proof (cases "length (as_painted_layers g) = 1")
      case True
      let ?k0 = "inter_glyph_reuse_key (as_painted_layers g ! 0)"
      have a: "layer u (glyph_name g) = G ?k0" "G ?k0 \<noteq> None"
        using d True by (simp_all add: glyf_done_ok_def)
      then have "layer u1 (glyph_name g) = G ?k0" using lay1 by simp
      then have "layer u2 (glyph_name g) = G1 ?k0" using f1 [OF gne] keep [OF a(2)] by simp
      then show ?thesis using True a(2) keep [OF a(2)] by (simp add: glyf_done_ok_def)
    next
      case False
      then obtain q where q: "layer u (glyph_name g) = Some q" "q < n0" "q < length (objects u)"
          "name (objects u ! q) = glyph_name g"
          "length (components (objects u ! q)) = length (as_painted_layers g)"
          "\<forall>i < length (as_painted_layers g).
                    layer u (baseGlyph (components (objects u ! q) ! i))
                      = G (inter_glyph_reuse_key (as_painted_layers g ! i))
                    \<and> G (inter_glyph_reuse_key (as_painted_layers g ! i)) \<noteq> None
                    \<and> baseGlyph (components (objects u ! q) ! i) \<notin> ?S"
        using d by (auto simp add: glyf_done_ok_def)
      from other [OF q(1-4) gne]
      have o: "layer u2 (glyph_name g) = Some q" "objects u2 ! q = objects u ! q"
          "q < length (objects u2)"
        by simp_all
      have "\<forall>i < length (as_painted_layers g).
                    layer u2 (baseGlyph (components (objects u2 ! q) ! i))
                      = G1 (inter_glyph_reuse_key (as_painted_layers g ! i))
                    \<and> G1 (inter_glyph_reuse_key (as_painted_layers g ! i)) \<noteq> None
                    \<and> baseGlyph (components (objects u2 ! q) ! i) \<notin> ?T"
      proof (intro allI impI)
        fix i assume i: "i < length (as_painted_layers g)"
        let ?b = "baseGlyph (components (objects u ! q) ! i)"
        let ?k = "inter_glyph_reuse_key (as_painted_layers g ! i)"
        have a: "layer u ?b = G ?k" "G ?k \<noteq> None" "?b \<notin> ?S" using q(6) i by simp_all
        have "layer u2 ?b = layer u ?b" using base a by simp
        then show "layer u2 (baseGlyph (components (objects u2 ! q) ! i)) = G1 ?k
                    \<and> G1 ?k \<noteq> None
                    \<and> baseGlyph (components (objects u2 ! q) ! i) \<notin> ?T"
          using a keep [OF a(2)] o(2) by auto
      qed
      then show ?thesis
        using False o q(2,4,5) by (intro glyf_done_okI_multi [where p = q]) simp_all
    qed
  qed
  have done_cur: "glyf_done_ok n0 u2 G1 ?T cur"
  proof (cases "length ?ls = 1")
    case True
    then obtain r where r: "G1 (inter_glyph_reuse_key (?ls ! 0)) = Some r"
      using refs1 by fastforce
    have "u2 = ufo_setitem u1 ?c r" using True lcs r by (simp add: u2_def)
    then show ?thesis using True r by (simp add: glyf_done_ok_def)
  next
    case False
    then have u2: "u2 = u1" using lcs by (simp add: u2_def)
    have "\<forall>i < length ?ls. layer u1 (baseGlyph (components (objects u1 ! p) ! i))
                      = G1 (inter_glyph_reuse_key (?ls ! i))
                    \<and> G1 (inter_glyph_reuse_key (?ls ! i)) \<noteq> None
                    \<and> baseGlyph (components (objects u1 ! p) ! i) \<notin> ?T"
      using refs1 comps by auto
    moreover have "layer u1 ?c = Some p" using lay1 p(1) by simp
    moreover have "p < length (objects u1)" using p(3) le01 by simp
    ultimately show ?thesis
      using False p(2) pname1 comps lcs unfolding u2
      by (intro glyf_done_okI_multi [where p = p]) simp_all
  qed
  have "n0 \<le> length (objects u2)" using n0 le01 f3 by simp
  moreover have "\<forall>g \<in> set (cur # dn). glyf_done_ok n0 u2 G1 ?T g"
    using done_cur done_old by simp
  moreover have "length (objects u2) = length (objects u) + sum outline_cost (dom G1 - dom G)"
    using len1 f3 by simp
  ultimately show ?thesis
    using res fin2 ok2 todo2 le1 dom1
    by (intro exI [of _ u2] exI [of _ G1]) blast
qed

lemma glyf_color_glyphs_effect:
  assumes "finite (dom (layer u))"
    and "outlines_ok n0 u G (glyph_name ` set todo)"
    and "n0 \<le> length (objects u)"
    and "\<forall>g \<in> set todo. glyf_todo_ok n0 u g"
    and "distinct (map glyph_name todo)"
    and "\<forall>g \<in> set dn. glyf_done_ok n0 u G (glyph_name ` set todo) g"
    and "glyph_name ` set dn \<inter> glyph_name ` set todo = {}"
  shows "\<exists>u' G'. glyf_color_glyphs todo (u, G) = Some (Inr (u', G'))
     \<and> outlines_ok n0 u' G' {}
     \<and> (\<forall>g \<in> set dn \<union> set todo. glyf_done_ok n0 u' G' {} g)
     \<and> G \<subseteq>\<^sub>m G' \<and> dom G' = dom G \<union> reuse_keys todo
     \<and> length (objects u') = length (objects u) + sum outline_cost (dom G' - dom G)"
  using assms
proof (induction todo arbitrary: u G dn)
  case Nil
  show ?case
    using Nil.prems by (intro exI [of _ u] exI [of _ G]) (simp add: reuse_keys_def)
next
  case (Cons cur todo)
  from glyf_color_glyph_effect [OF Cons.prems]
  obtain u1 G1 where
    one: "glyf_color_glyph cur (u, G) = Some (Inr (u1, G1))" and
    fin1: "finite (dom (layer u1))" and
    ok1: "outlines_ok n0 u1 G1 (glyph_name ` set todo)" and
    n01: "n0 \<le> length (objects u1)" and
    todo1: "\<forall>g \<in> set todo. glyf_todo_ok n0 u1 g" and
    done1: "\<forall>g \<in> set (cur # dn). glyf_done_ok n0 u1 G1 (glyph_name ` set todo) g" and
    le1: "G \<subseteq>\<^sub>m G1" and
    dom1: "dom G1 = dom G \<union> inter_glyph_reuse_key ` set (as_painted_layers cur)" and
    len1: "length (objects u1) = length (objects u) + sum outline_cost (dom G1 - dom G)"
    by (elim exE conjE) (rule that; assumption)
  have dist1: "distinct (map glyph_name todo)" using Cons.prems(5) by simp
  have names1: "glyph_name ` set (cur # dn) \<inter> glyph_name ` set todo = {}"
    using Cons.prems(5,7) by auto
  from Cons.IH [OF fin1 ok1 n01 todo1 dist1 done1 names1]
  obtain u' G' where
    rest: "glyf_color_glyphs todo (u1, G1) = Some (Inr (u', G'))" and
    ok': "outlines_ok n0 u' G' {}" and
    done': "\<forall>g \<in> set (cur # dn) \<union> set todo. glyf_done_ok n0 u' G' {} g" and
    le': "G1 \<subseteq>\<^sub>m G'" and
    dom': "dom G' = dom G1 \<union> reuse_keys todo" and
    len': "length (objects u') = length (objects u1) + sum outline_cost (dom G' - dom G1)"
    by (elim exE conjE) (rule that; assumption)
  have run: "glyf_color_glyphs (cur # todo) (u, G) = Some (Inr (u', G'))"
    using one rest by simp
  have d1: "dom G \<subseteq> dom G1" using le1 by (rule map_le_implies_dom_le)
  have d2: "dom G1 \<subseteq> dom G'" using le' by (rule map_le_implies_dom_le)
  have domall: "dom G' = dom G \<union> reuse_keys (cur # todo)"
    using dom1 dom' by (auto simp add: reuse_keys_def)
  have "finite (reuse_keys (cur # todo))" by (simp add: reuse_keys_def)
  then have finD: "finite (dom G' - dom G)"
    using domall by (auto intro: finite_subset)
  have len: "length (objects u') = length (objects u) + sum outline_cost (dom G' - dom G)"
    using len' len1 sum_new_keys [OF d1 d2 finD, of outline_cost] by simp
  have "G \<subseteq>\<^sub>m G'" using le1 le' by (rule map_le_trans)
  moreover have "\<forall>g \<in> set dn \<union> set (cur # todo). glyf_done_ok n0 u' G' {} g"
    using done' by simp
  ultimately show ?case
    using run ok' domall len by (intro exI [of _ u'] exI [of _ G']) blast
qed

lemma glyf_ufo_outlines:
  assumes fin: "finite (dom (layer u))"
    and fresh: "fresh_color_glyphs u gs"
  shows "\<exists>u' G. glyf_ufo u gs = Some (Inr u')
           \<and> dom G = reuse_keys gs
           \<and> (\<forall>k r. G k = Some r \<longrightarrow> length (objects u) \<le> r \<and> r < length (objects u'))
           \<and> (\<forall>g \<in> set gs. \<forall>i < length (as_painted_layers g).
                 glyf_outline u' g i = G (inter_glyph_reuse_key (as_painted_layers g ! i)))
           \<and> length (objects u') = length (objects u) + sum outline_cost (reuse_keys gs)"
proof -
  let ?n0 = "length (objects u)"
  have ok0: "outlines_ok ?n0 u Map.empty (glyph_name ` set gs)" by (simp add: outlines_ok_def)
  have todo0: "\<forall>g \<in> set gs. glyf_todo_ok ?n0 u g"
    using fresh_color_glyphs_named [OF fresh] unfolding glyf_todo_ok_def by blast
  have dist: "distinct (map glyph_name gs)" using fresh by (simp add: fresh_color_glyphs_def)
  have done0: "\<forall>g \<in> set []. glyf_done_ok ?n0 u Map.empty (glyph_name ` set gs) g" by simp
  have names0: "glyph_name ` set [] \<inter> glyph_name ` set gs = {}" by simp
  from glyf_color_glyphs_effect [OF fin ok0 order_refl todo0 dist done0 names0]
  obtain u' G where
    run: "glyf_color_glyphs gs (u, Map.empty) = Some (Inr (u', G))" and
    ok': "outlines_ok ?n0 u' G {}" and
    done': "\<forall>g \<in> set [] \<union> set gs. glyf_done_ok ?n0 u' G {} g" and
    dom': "dom G = dom (Map.empty :: reuse_key \<rightharpoonup> gref) \<union> reuse_keys gs" and
    len': "length (objects u') = ?n0 + sum outline_cost (dom G - dom (Map.empty :: reuse_key \<rightharpoonup> gref))"
    by (elim exE conjE) (rule that; assumption)
  have res: "glyf_ufo u gs = Some (Inr u')" using run by (simp add: glyf_ufo_def)
  have refs: "\<forall>k r. G k = Some r \<longrightarrow> ?n0 \<le> r \<and> r < length (objects u')"
    using outlines_ok_lookup [OF ok'] by blast
  have out: "glyf_outline u' g i = G (inter_glyph_reuse_key (as_painted_layers g ! i))"
    if g: "g \<in> set gs" and i: "i < length (as_painted_layers g)" for g i
  proof -
    have d: "glyf_done_ok ?n0 u' G {} g" using done' g by simp
    show ?thesis
    proof (cases "length (as_painted_layers g) = 1")
      case True
      then have "i = 0" using i by simp
      then show ?thesis using d True by (simp add: glyf_done_ok_def glyf_outline_def)
    next
      case False
      then show ?thesis using d i by (auto simp add: glyf_done_ok_def glyf_outline_def)
    qed
  qed
  show ?thesis
    using res refs out dom' len' by (intro exI [of _ u'] exI [of _ G]) simp
qed

text \<open>
  C1. Let the font hold, as \<^verbatim>\<open>ColorGlyph.create\<close> leaves it, one glyph without components under
  the name of each color glyph of the list, the names distinct. Then the composite outline
  encoder returns, and in the font it returns any two painted layers with equal reuse key,
  of the same or of different color glyphs, stand on the same glyph object, one the encoder
  made. The palette-layered encoder does the same in every font it returns, and it does
  return a font under version 0 and under version 1, provided that under version 0 every
  paint mentions a color (\<^verbatim>\<open>_colr_paint\<close> raises otherwise). Either encoder
  makes one outline glyph (two when the layer records reuses) per reuse key that occurs, so
  only the first layer with a key makes a glyph. For a layer whose key the dictionary
  already holds, the shared lines return the registered glyph and leave the font and the
  dictionary as they are, and the composite encoder's step is one component, naming that
  glyph, appended to the parent: nothing is drawn.
\<close>

theorem equal_reuse_key_same_outline_glyph:
  assumes "finite (dom (layer u))" and "fresh_color_glyphs u color_glyphs"
  shows "(\<exists>u'. glyf_ufo u color_glyphs = Some (Inr u')
            \<and> (\<forall>g1 \<in> set color_glyphs. \<forall>g2 \<in> set color_glyphs.
                  \<forall>i1 < length (as_painted_layers g1). \<forall>i2 < length (as_painted_layers g2).
                    inter_glyph_reuse_key (as_painted_layers g1 ! i1)
                      = inter_glyph_reuse_key (as_painted_layers g2 ! i2)
                    \<longrightarrow> glyf_outline u' g1 i1 = glyf_outline u' g2 i2
                        \<and> (\<exists>r. glyf_outline u' g1 i1 = Some r \<and> length (objects u) \<le> r
                                 \<and> r < length (objects u')))
            \<and> length (objects u') = length (objects u) + sum outline_cost (reuse_keys color_glyphs))
         \<and> (\<forall>u'. colr_ufo colr_version u color_glyphs = Some (Inr u') \<longrightarrow>
               (\<forall>g1 \<in> set color_glyphs. \<forall>g2 \<in> set color_glyphs.
                  \<forall>i1 < length (as_painted_layers g1). \<forall>i2 < length (as_painted_layers g2).
                    inter_glyph_reuse_key (as_painted_layers g1 ! i1)
                      = inter_glyph_reuse_key (as_painted_layers g2 ! i2)
                    \<longrightarrow> colr_outline u' g1 i1 = colr_outline u' g2 i2
                        \<and> colr_outline u' g1 i1 \<noteq> None)
               \<and> length (objects u') = length (objects u) + sum outline_cost (reuse_keys color_glyphs))
         \<and> ((colr_version = 0 \<or> colr_version = 1)
              \<and> (colr_version = 0 \<longrightarrow> paints_have_colors color_glyphs) \<longrightarrow>
             (\<exists>u'. colr_ufo colr_version u color_glyphs = Some (Inr u')
                \<and> (\<forall>g1 \<in> set color_glyphs. \<forall>g2 \<in> set color_glyphs.
                      \<forall>i1 < length (as_painted_layers g1). \<forall>i2 < length (as_painted_layers g2).
                        inter_glyph_reuse_key (as_painted_layers g1 ! i1)
                          = inter_glyph_reuse_key (as_painted_layers g2 ! i2)
                        \<longrightarrow> colr_outline u' g1 i1 = colr_outline u' g2 i2
                            \<and> colr_outline u' g1 i1 \<noteq> None)
                \<and> length (objects u') = length (objects u) + sum outline_cost (reuse_keys color_glyphs)))
         \<and> (\<forall>u1 glyphs g l r. glyphs (inter_glyph_reuse_key l) = Some r \<longrightarrow>
               reuse_or_create u1 glyphs g l = Some (Inr (r, u1, glyphs)))
         \<and> (\<forall>u1 glyphs g p l ls r. glyphs (inter_glyph_reuse_key l) = Some r \<longrightarrow>
               glyf_layers g (Some p) (l # ls) (u1, glyphs)
                 = glyf_layers g (Some p) ls
                     (append_component p
                        \<lparr>baseGlyph = name (objects u1 ! r), transformation = identity\<rparr> u1,
                      glyphs))"
proof -
  from glyf_ufo_outlines [OF assms]
  obtain u' G where
    run: "glyf_ufo u color_glyphs = Some (Inr u')" and
    dom: "dom G = reuse_keys color_glyphs" and
    made: "\<forall>k r. G k = Some r \<longrightarrow> length (objects u) \<le> r \<and> r < length (objects u')" and
    out: "\<forall>g \<in> set color_glyphs. \<forall>i < length (as_painted_layers g).
                 glyf_outline u' g i = G (inter_glyph_reuse_key (as_painted_layers g ! i))" and
    len: "length (objects u') = length (objects u) + sum outline_cost (reuse_keys color_glyphs)"
    by (elim exE conjE) (rule that; assumption)
  have pair: "glyf_outline u' g1 i1 = glyf_outline u' g2 i2
                \<and> (\<exists>r. glyf_outline u' g1 i1 = Some r \<and> length (objects u) \<le> r
                         \<and> r < length (objects u'))"
    if "g1 \<in> set color_glyphs" "g2 \<in> set color_glyphs"
      "i1 < length (as_painted_layers g1)" "i2 < length (as_painted_layers g2)"
      "inter_glyph_reuse_key (as_painted_layers g1 ! i1)
         = inter_glyph_reuse_key (as_painted_layers g2 ! i2)" for g1 g2 i1 i2
  proof -
    let ?k = "inter_glyph_reuse_key (as_painted_layers g1 ! i1)"
    have o1: "glyf_outline u' g1 i1 = G ?k" using out that(1,3) by simp
    have o2: "glyf_outline u' g2 i2 = G ?k" using out that(2,4,5) by simp
    have "as_painted_layers g1 ! i1 \<in> set (as_painted_layers g1)" using that(3) by simp
    then have "?k \<in> reuse_keys color_glyphs" using that(1) unfolding reuse_keys_def by blast
    then obtain r where r: "G ?k = Some r" using dom by auto
    then have "length (objects u) \<le> r \<and> r < length (objects u')" using made by blast
    then show ?thesis using o1 o2 r by simp
  qed
  have glyf: "\<exists>u'. glyf_ufo u color_glyphs = Some (Inr u')
            \<and> (\<forall>g1 \<in> set color_glyphs. \<forall>g2 \<in> set color_glyphs.
                  \<forall>i1 < length (as_painted_layers g1). \<forall>i2 < length (as_painted_layers g2).
                    inter_glyph_reuse_key (as_painted_layers g1 ! i1)
                      = inter_glyph_reuse_key (as_painted_layers g2 ! i2)
                    \<longrightarrow> glyf_outline u' g1 i1 = glyf_outline u' g2 i2
                        \<and> (\<exists>r. glyf_outline u' g1 i1 = Some r \<and> length (objects u) \<le> r
                                 \<and> r < length (objects u')))
            \<and> length (objects u') = length (objects u) + sum outline_cost (reuse_keys color_glyphs)"
    using run pair len by (intro exI [of _ u']) blast
  have colr: "(\<forall>g1 \<in> set color_glyphs. \<forall>g2 \<in> set color_glyphs.
                  \<forall>i1 < length (as_painted_layers g1). \<forall>i2 < length (as_painted_layers g2).
                    inter_glyph_reuse_key (as_painted_layers g1 ! i1)
                      = inter_glyph_reuse_key (as_painted_layers g2 ! i2)
                    \<longrightarrow> colr_outline w g1 i1 = colr_outline w g2 i2
                        \<and> colr_outline w g1 i1 \<noteq> None)
               \<and> length (objects w) = length (objects u) + sum outline_cost (reuse_keys color_glyphs)"
    if w: "colr_ufo colr_version u color_glyphs = Some (Inr w)" for w
  proof -
    from colr_ufo_outlines [OF w assms]
    obtain H where
      domH: "dom H = reuse_keys color_glyphs" and
      outH: "\<forall>g \<in> set color_glyphs. \<forall>i < length (as_painted_layers g).
                 colr_outline w g i = H (inter_glyph_reuse_key (as_painted_layers g ! i))" and
      lenH: "length (objects w) = length (objects u) + sum outline_cost (reuse_keys color_glyphs)"
      by (elim exE conjE) (rule that; assumption)
    have "colr_outline w g1 i1 = colr_outline w g2 i2 \<and> colr_outline w g1 i1 \<noteq> None"
      if "g1 \<in> set color_glyphs" "g2 \<in> set color_glyphs"
        "i1 < length (as_painted_layers g1)" "i2 < length (as_painted_layers g2)"
        "inter_glyph_reuse_key (as_painted_layers g1 ! i1)
           = inter_glyph_reuse_key (as_painted_layers g2 ! i2)" for g1 g2 i1 i2
    proof -
      let ?k = "inter_glyph_reuse_key (as_painted_layers g1 ! i1)"
      have o1: "colr_outline w g1 i1 = H ?k" using outH that(1,3) by simp
      have o2: "colr_outline w g2 i2 = H ?k" using outH that(2,4,5) by simp
      have "as_painted_layers g1 ! i1 \<in> set (as_painted_layers g1)" using that(3) by simp
      then have "?k \<in> reuse_keys color_glyphs" using that(1) unfolding reuse_keys_def by blast
      then obtain r where "H ?k = Some r" using domH by auto
      then show ?thesis using o1 o2 by simp
    qed
    then show ?thesis using lenH by blast
  qed
  have seen: "\<forall>u1 glyphs g l r. glyphs (inter_glyph_reuse_key l) = Some r \<longrightarrow>
               reuse_or_create u1 glyphs g l = Some (Inr (r, u1, glyphs))"
    by (simp add: reuse_or_create_seen)
  have step: "\<forall>u1 glyphs g p l ls r. glyphs (inter_glyph_reuse_key l) = Some r \<longrightarrow>
               glyf_layers g (Some p) (l # ls) (u1, glyphs)
                 = glyf_layers g (Some p) ls
                     (append_component p
                        \<lparr>baseGlyph = name (objects u1 ! r), transformation = identity\<rparr> u1,
                      glyphs)"
    by (simp add: reuse_or_create_seen)
  have colr_all: "\<forall>u'. colr_ufo colr_version u color_glyphs = Some (Inr u') \<longrightarrow>
               (\<forall>g1 \<in> set color_glyphs. \<forall>g2 \<in> set color_glyphs.
                  \<forall>i1 < length (as_painted_layers g1). \<forall>i2 < length (as_painted_layers g2).
                    inter_glyph_reuse_key (as_painted_layers g1 ! i1)
                      = inter_glyph_reuse_key (as_painted_layers g2 ! i2)
                    \<longrightarrow> colr_outline u' g1 i1 = colr_outline u' g2 i2
                        \<and> colr_outline u' g1 i1 \<noteq> None)
               \<and> length (objects u') = length (objects u) + sum outline_cost (reuse_keys color_glyphs)"
    by (intro allI impI) (rule colr)
  have colr_total: "(colr_version = 0 \<or> colr_version = 1)
              \<and> (colr_version = 0 \<longrightarrow> paints_have_colors color_glyphs) \<longrightarrow>
             (\<exists>u'. colr_ufo colr_version u color_glyphs = Some (Inr u')
                \<and> (\<forall>g1 \<in> set color_glyphs. \<forall>g2 \<in> set color_glyphs.
                      \<forall>i1 < length (as_painted_layers g1). \<forall>i2 < length (as_painted_layers g2).
                        inter_glyph_reuse_key (as_painted_layers g1 ! i1)
                          = inter_glyph_reuse_key (as_painted_layers g2 ! i2)
                        \<longrightarrow> colr_outline u' g1 i1 = colr_outline u' g2 i2
                            \<and> colr_outline u' g1 i1 \<noteq> None)
                \<and> length (objects u') = length (objects u) + sum outline_cost (reuse_keys color_glyphs))"
  proof
    assume c: "(colr_version = 0 \<or> colr_version = 1)
              \<and> (colr_version = 0 \<longrightarrow> paints_have_colors color_glyphs)"
    from colr_ufo_returns [OF assms conjunct1 [OF c] conjunct2 [OF c]]
    obtain w where w: "colr_ufo colr_version u color_glyphs = Some (Inr w)" by blast
    from colr [OF w] w
    show "\<exists>u'. colr_ufo colr_version u color_glyphs = Some (Inr u')
                \<and> (\<forall>g1 \<in> set color_glyphs. \<forall>g2 \<in> set color_glyphs.
                      \<forall>i1 < length (as_painted_layers g1). \<forall>i2 < length (as_painted_layers g2).
                        inter_glyph_reuse_key (as_painted_layers g1 ! i1)
                          = inter_glyph_reuse_key (as_painted_layers g2 ! i2)
                        \<longrightarrow> colr_outline u' g1 i1 = colr_outline u' g2 i2
                            \<and> colr_outline u' g1 i1 \<noteq> None)
                \<and> length (objects u') = length (objects u) + sum outline_cost (reuse_keys color_glyphs)"
      by (intro exI [of _ w] conjI) (rule conjunct1, assumption | rule conjunct2, assumption | assumption)+
  qed
  show ?thesis
    by (rule conjI [OF glyf conjI [OF colr_all conjI [OF colr_total conjI [OF seen step]]]])
qed

subsection \<open>The collapse of single-component glyphs\<close>

text \<open>
  C6. Let the layers of a color glyph have been encoded, leaving the font \<open>u1\<close>, and let \<open>p\<close>
  be the color glyph's own (parent) glyph. If the parent has exactly one component, whose
  base glyph name leads to the glyph \<open>child\<close>, the round ends with the font holding \<open>child\<close>
  under the color glyph's name: the same contents (width, unicodes, components, contours),
  renamed to the color glyph's name; no other glyph and no other name of the font changes.
  If the parent has no component or two or more, the round ends with \<open>u1\<close> unchanged, the
  parent's components retained.
\<close>

theorem glyf_single_component_collapses:
  assumes "glyf_layers g (ufo_get u (glyph_name g)) (as_painted_layers g) (u, glyphs)
             = Some (Inr (u1, glyphs1))"
    and "ufo_get u (glyph_name g) = Some p"
  shows "(length (components (objects u1 ! p)) = 1
            \<and> layer u1 (baseGlyph (components (objects u1 ! p) ! 0)) = Some child
            \<and> child < length (objects u1)
          \<longrightarrow> (\<exists>u2. glyf_color_glyph g (u, glyphs) = Some (Inr (u2, glyphs1))
                 \<and> layer u2 (glyph_name g) = Some child
                 \<and> objects u2 ! child = (objects u1 ! child)\<lparr>name := glyph_name g\<rparr>
                 \<and> width (objects u2 ! child) = width (objects u1 ! child)
                 \<and> unicodes (objects u2 ! child) = unicodes (objects u1 ! child)
                 \<and> components (objects u2 ! child) = components (objects u1 ! child)
                 \<and> contours (objects u2 ! child) = contours (objects u1 ! child)
                 \<and> length (objects u2) = length (objects u1)
                 \<and> (\<forall>r. r \<noteq> child \<longrightarrow> objects u2 ! r = objects u1 ! r)
                 \<and> (\<forall>m. m \<noteq> glyph_name g \<longrightarrow> layer u2 m = layer u1 m)
                 \<and> glyphOrder u2 = glyphOrder u1))
         \<and> (length (components (objects u1 ! p)) \<noteq> 1
          \<longrightarrow> glyf_color_glyph g (u, glyphs) = Some (Inr (u1, glyphs1)))"
proof (intro conjI impI)
  assume a: "length (components (objects u1 ! p)) = 1
            \<and> layer u1 (baseGlyph (components (objects u1 ! p) ! 0)) = Some child
            \<and> child < length (objects u1)"
  let ?u2 = "ufo_setitem u1 (glyph_name g) child"
  have "glyf_color_glyph g (u, glyphs) = Some (Inr (?u2, glyphs1))"
    using assms a by (simp add: glyf_color_glyph_def ufo_getitem_def)
  moreover have "objects ?u2 ! child = (objects u1 ! child)\<lparr>name := glyph_name g\<rparr>"
    using a by (simp add: ufo_setitem_nth)
  moreover have "\<forall>r. r \<noteq> child \<longrightarrow> objects ?u2 ! r = objects u1 ! r"
    by (simp add: ufo_setitem_nth)
  moreover have "glyphOrder ?u2 = glyphOrder u1" by (simp add: ufo_setitem_def)
  ultimately show "\<exists>u2. glyf_color_glyph g (u, glyphs) = Some (Inr (u2, glyphs1))
                 \<and> layer u2 (glyph_name g) = Some child
                 \<and> objects u2 ! child = (objects u1 ! child)\<lparr>name := glyph_name g\<rparr>
                 \<and> width (objects u2 ! child) = width (objects u1 ! child)
                 \<and> unicodes (objects u2 ! child) = unicodes (objects u1 ! child)
                 \<and> components (objects u2 ! child) = components (objects u1 ! child)
                 \<and> contours (objects u2 ! child) = contours (objects u1 ! child)
                 \<and> length (objects u2) = length (objects u1)
                 \<and> (\<forall>r. r \<noteq> child \<longrightarrow> objects u2 ! r = objects u1 ! r)
                 \<and> (\<forall>m. m \<noteq> glyph_name g \<longrightarrow> layer u2 m = layer u1 m)
                 \<and> glyphOrder u2 = glyphOrder u1"
    by (intro exI [of _ ?u2]) simp
next
  assume "length (components (objects u1 ! p)) \<noteq> 1"
  then show "glyf_color_glyph g (u, glyphs) = Some (Inr (u1, glyphs1))"
    using assms by (simp add: glyf_color_glyph_def)
qed

lemma example_fresh: "fresh_color_glyphs example_ufo [example_face, example_moon]"
  by (simp add: fresh_color_glyphs_def example_ufo_def example_face_def example_moon_def
      new_Glyph_def)

lemma example_finite: "finite (dom (layer example_ufo))"
  by (simp add: example_ufo_def)

lemma example_reuse_keys:
  "reuse_keys [example_face, example_moon]
     = {(''M0,0 L8,0 L8,8 Z'', []), (''M2,2 A1,1 0 1 1 2,4 Z'', [Affine2D 1 0 0 1 4 0])}"
  by (auto simp add: reuse_keys_def inter_glyph_reuse_key_def example_face_def example_moon_def
      example_disc_def)

lemma example_paints_have_colors: "paints_have_colors [example_face, example_moon]"
  by (simp add: paints_have_colors_def example_face_def example_moon_def)

theorem equal_reuse_key_same_outline_glyph_witness:
  "finite (dom (layer example_ufo))
   \<and> fresh_color_glyphs example_ufo [example_face, example_moon]
   \<and> inter_glyph_reuse_key (as_painted_layers example_face ! 1)
       = inter_glyph_reuse_key (as_painted_layers example_moon ! 0)
   \<and> (\<exists>u'. glyf_ufo example_ufo [example_face, example_moon] = Some (Inr u')
          \<and> glyf_outline u' example_face 1 = glyf_outline u' example_moon 0
          \<and> length (objects u') = 7)
   \<and> (\<exists>u'. colr_ufo 0 example_ufo [example_face, example_moon] = Some (Inr u')
          \<and> colr_outline u' example_face 1 = colr_outline u' example_moon 0
          \<and> colr_outline u' example_face 1 \<noteq> None
          \<and> length (objects u') = 7)"
proof -
  have k: "inter_glyph_reuse_key (as_painted_layers example_face ! 1)
       = inter_glyph_reuse_key (as_painted_layers example_moon ! 0)"
    by (simp add: inter_glyph_reuse_key_def example_face_def example_moon_def)
  have n: "length (objects example_ufo) + sum outline_cost (reuse_keys [example_face, example_moon]) = 7"
    by (simp add: example_reuse_keys outline_cost_def example_ufo_def)
  have i1: "1 < length (as_painted_layers example_face)" by (simp add: example_face_def)
  have i2: "0 < length (as_painted_layers example_moon)" by (simp add: example_moon_def)
  have m1: "example_face \<in> set [example_face, example_moon]" by simp
  have m2: "example_moon \<in> set [example_face, example_moon]" by simp
  note t = equal_reuse_key_same_outline_glyph [OF example_finite example_fresh, of 0]
  from t [THEN conjunct1]
  obtain u' where
    run: "glyf_ufo example_ufo [example_face, example_moon] = Some (Inr u')" and
    same: "\<forall>g1 \<in> set [example_face, example_moon]. \<forall>g2 \<in> set [example_face, example_moon].
                  \<forall>i1 < length (as_painted_layers g1). \<forall>i2 < length (as_painted_layers g2).
                    inter_glyph_reuse_key (as_painted_layers g1 ! i1)
                      = inter_glyph_reuse_key (as_painted_layers g2 ! i2)
                    \<longrightarrow> glyf_outline u' g1 i1 = glyf_outline u' g2 i2
                        \<and> (\<exists>r. glyf_outline u' g1 i1 = Some r \<and> length (objects example_ufo) \<le> r
                                 \<and> r < length (objects u'))" and
    len: "length (objects u') = length (objects example_ufo)
            + sum outline_cost (reuse_keys [example_face, example_moon])"
    by (elim exE conjE) (rule that; assumption)
  from same [rule_format, OF m1 m2 i1 i2 k]
  have o: "glyf_outline u' example_face 1 = glyf_outline u' example_moon 0" by (rule conjunct1)
  have l7: "length (objects u') = 7" using len n by (simp only:)
  have glyf: "\<exists>u'. glyf_ufo example_ufo [example_face, example_moon] = Some (Inr u')
          \<and> glyf_outline u' example_face 1 = glyf_outline u' example_moon 0
          \<and> length (objects u') = 7"
    using run o l7 by (intro exI [of _ u'] conjI) assumption+
  have c: "((0::int) = 0 \<or> (0::int) = 1)
              \<and> ((0::int) = 0 \<longrightarrow> paints_have_colors [example_face, example_moon])"
    using example_paints_have_colors by simp
  from t [THEN conjunct2, THEN conjunct2, THEN conjunct1, THEN mp, OF c]
  obtain w where
    runw: "colr_ufo 0 example_ufo [example_face, example_moon] = Some (Inr w)" and
    samew: "\<forall>g1 \<in> set [example_face, example_moon]. \<forall>g2 \<in> set [example_face, example_moon].
                  \<forall>i1 < length (as_painted_layers g1). \<forall>i2 < length (as_painted_layers g2).
                    inter_glyph_reuse_key (as_painted_layers g1 ! i1)
                      = inter_glyph_reuse_key (as_painted_layers g2 ! i2)
                    \<longrightarrow> colr_outline w g1 i1 = colr_outline w g2 i2
                        \<and> colr_outline w g1 i1 \<noteq> None" and
    lenw: "length (objects w) = length (objects example_ufo)
            + sum outline_cost (reuse_keys [example_face, example_moon])"
    by (elim exE conjE) (rule that; assumption)
  note both = samew [rule_format, OF m1 m2 i1 i2 k]
  have ow: "colr_outline w example_face 1 = colr_outline w example_moon 0"
    using both by (rule conjunct1)
  have nw: "colr_outline w example_face 1 \<noteq> None" using both by (rule conjunct2)
  have lw: "length (objects w) = 7" using lenw n by (simp only:)
  have colr: "\<exists>u'. colr_ufo 0 example_ufo [example_face, example_moon] = Some (Inr u')
          \<and> colr_outline u' example_face 1 = colr_outline u' example_moon 0
          \<and> colr_outline u' example_face 1 \<noteq> None
          \<and> length (objects u') = 7"
    using runw ow nw lw by (intro exI [of _ w] conjI) assumption+
  show ?thesis
    using example_finite example_fresh k glyf colr by (intro conjI) assumption+
qed

theorem glyf_single_component_collapses_witness:
  "\<exists>u2 glyphs. glyf_color_glyph example_moon (example_ufo, Map.empty) = Some (Inr (u2, glyphs))
      \<and> layer u2 ''emoji_1f31a'' = Some 4
      \<and> name (objects u2 ! 4) = ''emoji_1f31a''
      \<and> map baseGlyph (components (objects u2 ! 4))
          = [''emoji_1f31a.0.component.0'', ''emoji_1f31a.0.component.0'']
      \<and> layer u2 ''emoji_1f31a.0'' = Some 4"
proof -
  have "\<exists>u1 glyphs1.
      glyf_layers example_moon (ufo_get example_ufo (glyph_name example_moon))
          (as_painted_layers example_moon) (example_ufo, Map.empty) = Some (Inr (u1, glyphs1))
      \<and> length (components (objects u1 ! 3)) = 1
      \<and> layer u1 (baseGlyph (components (objects u1 ! 3) ! 0)) = Some 4
      \<and> 4 < length (objects u1)
      \<and> map baseGlyph (components (objects u1 ! 4))
          = [''emoji_1f31a.0.component.0'', ''emoji_1f31a.0.component.0'']
      \<and> layer u1 ''emoji_1f31a.0'' = Some 4"
    by (simp add: reuse_or_create_def inter_glyph_reuse_key_def ufo_get_def
      create_glyph_def next_name_def next_name_from.simps ufo_contains_def
      example_ufo_def example_moon_def initial_ufo_def str_nat.simps digit_char_def
      newGlyph_def Let_def update_glyph_def new_Glyph_def draw_def append_component_def
      example_disc_def reuse_component_def identity_def)
  then obtain u1 glyphs1 where
    run: "glyf_layers example_moon (ufo_get example_ufo (glyph_name example_moon))
          (as_painted_layers example_moon) (example_ufo, Map.empty) = Some (Inr (u1, glyphs1))" and
    one1: "length (components (objects u1 ! 3)) = 1" and
    one2: "layer u1 (baseGlyph (components (objects u1 ! 3) ! 0)) = Some 4" and
    one3: "4 < length (objects u1)" and
    comps: "map baseGlyph (components (objects u1 ! 4))
          = [''emoji_1f31a.0.component.0'', ''emoji_1f31a.0.component.0'']" and
    old: "layer u1 ''emoji_1f31a.0'' = Some 4"
    by (elim exE conjE) (rule that; assumption)
  have one: "length (components (objects u1 ! 3)) = 1
            \<and> layer u1 (baseGlyph (components (objects u1 ! 3) ! 0)) = Some 4
            \<and> 4 < length (objects u1)"
    using one1 one2 one3 by (intro conjI) assumption+
  have p: "ufo_get example_ufo (glyph_name example_moon) = Some 3"
    by (simp add: ufo_get_def example_ufo_def example_moon_def)
  have nm: "glyph_name example_moon = ''emoji_1f31a''" by (simp add: example_moon_def)
  from glyf_single_component_collapses [OF run p, of 4, THEN conjunct1, THEN mp, OF one]
  obtain u2 where
    r: "glyf_color_glyph example_moon (example_ufo, Map.empty) = Some (Inr (u2, glyphs1))" and
    l: "layer u2 (glyph_name example_moon) = Some 4" and
    o: "objects u2 ! 4 = (objects u1 ! 4)\<lparr>name := glyph_name example_moon\<rparr>" and
    m: "\<forall>m. m \<noteq> glyph_name example_moon \<longrightarrow> layer u2 m = layer u1 m"
    by (elim exE conjE) (rule that; assumption)
  have "layer u2 ''emoji_1f31a.0'' = Some 4" using m old nm by simp
  then show ?thesis
    using r l o comps nm by (intro exI [of _ u2] exI [of _ glyphs1]) simp
qed

subsection \<open>The palette and the paints under each version\<close>

text \<open>
  C5. Under version 0 the palette holds exactly the distinct colors of the color glyphs, in
  sorted order, and the paint of every layer of every color glyph is encoded as the palette
  index of the first color it mentions: a solid paint as the index of its color, a gradient
  as one palette index, that of its first stop's color (a paint that mentions no color
  raises StopIteration). Under version 1 the palette holds exactly the opaque reductions of
  those colors (every entry has alpha 1); a solid paint becomes the palette index of its
  opaque color with its alpha, and a gradient becomes a structure with one entry per color
  stop: the stop's position, the palette index of the stop's opaque color, and the stop's
  alpha. Run on a font that holds a blank glyph for each color glyph, the encoder returns a
  font whose palette is that palette and whose color-layers table lists for each color
  glyph, layer by layer, these encoded paints.
\<close>

theorem colr_palette_and_paint_by_version:
  "set (colr_colors 0 color_glyphs) = (\<Union>g \<in> set color_glyphs. set (colors g))
   \<and> distinct (colr_colors 0 color_glyphs) \<and> sorted (colr_colors 0 color_glyphs)
   \<and> set (colr_colors 1 color_glyphs) = opaque ` (\<Union>g \<in> set color_glyphs. set (colors g))
   \<and> distinct (colr_colors 1 color_glyphs) \<and> sorted (colr_colors 1 color_glyphs)
   \<and> (\<forall>p \<in> set (colr_colors 1 color_glyphs). alpha p = 1)
   \<and> (\<forall>g \<in> set color_glyphs. \<forall>l \<in> set (as_painted_layers g).
         (\<forall>c cs. paint_colors (paint l) = c # cs \<longrightarrow>
            (\<exists>i. colr_paint 0 (paint l) (colr_colors 0 color_glyphs) = Inr (PaletteIndex i)
                \<and> i < length (colr_colors 0 color_glyphs)
                \<and> colr_colors 0 color_glyphs ! i = c))
       \<and> (paint_colors (paint l) = [] \<longrightarrow>
            colr_paint 0 (paint l) (colr_colors 0 color_glyphs) = Inl StopIteration)
       \<and> (\<forall>c. paint l = PaintSolid c \<longrightarrow>
            (\<exists>i. colr_paint 0 (paint l) (colr_colors 0 color_glyphs) = Inr (PaletteIndex i)
                \<and> i < length (colr_colors 0 color_glyphs)
                \<and> colr_colors 0 color_glyphs ! i = c)
            \<and> (\<exists>i. colr_paint 1 (paint l) (colr_colors 1 color_glyphs) = Inr (UfoSolid i (alpha c))
                \<and> i < length (colr_colors 1 color_glyphs)
                \<and> colr_colors 1 color_glyphs ! i = opaque c))
       \<and> (\<forall>offset c stops. paint l = PaintGradient ((offset, c) # stops) \<longrightarrow>
            (\<exists>i. colr_paint 0 (paint l) (colr_colors 0 color_glyphs) = Inr (PaletteIndex i)
                \<and> i < length (colr_colors 0 color_glyphs)
                \<and> colr_colors 0 color_glyphs ! i = c))
       \<and> (\<forall>stops. paint l = PaintGradient stops \<longrightarrow>
            (\<exists>line. colr_paint 1 (paint l) (colr_colors 1 color_glyphs) = Inr (UfoGradient line)
                \<and> length line = length stops
                \<and> map fst line = map fst stops
                \<and> (\<forall>k < length stops.
                      fst (snd (line ! k)) < length (colr_colors 1 color_glyphs)
                      \<and> colr_colors 1 color_glyphs ! fst (snd (line ! k)) = opaque (snd (stops ! k))
                      \<and> snd (snd (line ! k)) = alpha (snd (stops ! k))))))
   \<and> (finite (dom (layer u)) \<and> fresh_color_glyphs u color_glyphs
        \<and> (colr_version = 0 \<or> colr_version = 1)
        \<and> (colr_version = 0 \<longrightarrow> paints_have_colors color_glyphs) \<longrightarrow>
       (\<exists>u' color_layers. colr_ufo colr_version u color_glyphs = Some (Inr u')
           \<and> colorPalettes u' = Some [map to_ufo_color (colr_colors colr_version color_glyphs)]
           \<and> colorLayers u' = Some color_layers
           \<and> (\<forall>g \<in> set color_glyphs. \<exists>ls. color_layers (glyph_name g) = Some ls
                 \<and> map (\<lambda>e. Inr (snd e)) ls
                     = map (\<lambda>l. colr_paint colr_version (paint l)
                                   (colr_colors colr_version color_glyphs))
                         (as_painted_layers g))
           \<and> (\<forall>n. n \<notin> glyph_name ` set color_glyphs \<longrightarrow> color_layers n = None)))"
proof -
  have v0set: "set (colr_colors 0 color_glyphs) = (\<Union>g \<in> set color_glyphs. set (colors g))"
    by (simp add: set_colr_colors)
  have v0d: "distinct (colr_colors 0 color_glyphs)" and v0s: "sorted (colr_colors 0 color_glyphs)"
    by (simp_all add: colr_colors_def)
  have v1set: "set (colr_colors 1 color_glyphs) = opaque ` (\<Union>g \<in> set color_glyphs. set (colors g))"
    by (simp add: set_colr_colors)
  have v1d: "distinct (colr_colors 1 color_glyphs)" and v1s: "sorted (colr_colors 1 color_glyphs)"
    by (simp_all add: colr_colors_def)
  have v1a: "\<forall>p \<in> set (colr_colors 1 color_glyphs). alpha p = 1"
    by (auto simp add: v1set opaque_def alpha_def)
  have paints: "\<forall>g \<in> set color_glyphs. \<forall>l \<in> set (as_painted_layers g).
         (\<forall>c cs. paint_colors (paint l) = c # cs \<longrightarrow>
            (\<exists>i. colr_paint 0 (paint l) (colr_colors 0 color_glyphs) = Inr (PaletteIndex i)
                \<and> i < length (colr_colors 0 color_glyphs)
                \<and> colr_colors 0 color_glyphs ! i = c))
       \<and> (paint_colors (paint l) = [] \<longrightarrow>
            colr_paint 0 (paint l) (colr_colors 0 color_glyphs) = Inl StopIteration)
       \<and> (\<forall>c. paint l = PaintSolid c \<longrightarrow>
            (\<exists>i. colr_paint 0 (paint l) (colr_colors 0 color_glyphs) = Inr (PaletteIndex i)
                \<and> i < length (colr_colors 0 color_glyphs)
                \<and> colr_colors 0 color_glyphs ! i = c)
            \<and> (\<exists>i. colr_paint 1 (paint l) (colr_colors 1 color_glyphs) = Inr (UfoSolid i (alpha c))
                \<and> i < length (colr_colors 1 color_glyphs)
                \<and> colr_colors 1 color_glyphs ! i = opaque c))
       \<and> (\<forall>offset c stops. paint l = PaintGradient ((offset, c) # stops) \<longrightarrow>
            (\<exists>i. colr_paint 0 (paint l) (colr_colors 0 color_glyphs) = Inr (PaletteIndex i)
                \<and> i < length (colr_colors 0 color_glyphs)
                \<and> colr_colors 0 color_glyphs ! i = c))
       \<and> (\<forall>stops. paint l = PaintGradient stops \<longrightarrow>
            (\<exists>line. colr_paint 1 (paint l) (colr_colors 1 color_glyphs) = Inr (UfoGradient line)
                \<and> length line = length stops
                \<and> map fst line = map fst stops
                \<and> (\<forall>k < length stops.
                      fst (snd (line ! k)) < length (colr_colors 1 color_glyphs)
                      \<and> colr_colors 1 color_glyphs ! fst (snd (line ! k)) = opaque (snd (stops ! k))
                      \<and> snd (snd (line ! k)) = alpha (snd (stops ! k)))))"
  proof (intro ballI)
    fix g l assume g: "g \<in> set color_glyphs" and l: "l \<in> set (as_painted_layers g)"
    note first = colr_v0_first_color [OF g l]
    note v1 = colr_v1_paint_result [OF g l]
    have a: "\<forall>c cs. paint_colors (paint l) = c # cs \<longrightarrow>
            (\<exists>i. colr_paint 0 (paint l) (colr_colors 0 color_glyphs) = Inr (PaletteIndex i)
                \<and> i < length (colr_colors 0 color_glyphs)
                \<and> colr_colors 0 color_glyphs ! i = c)"
      using first by blast
    have b: "paint_colors (paint l) = [] \<longrightarrow>
            colr_paint 0 (paint l) (colr_colors 0 color_glyphs) = Inl StopIteration"
      by (simp add: colr_paint_def)
    have c: "\<forall>c. paint l = PaintSolid c \<longrightarrow>
            (\<exists>i. colr_paint 0 (paint l) (colr_colors 0 color_glyphs) = Inr (PaletteIndex i)
                \<and> i < length (colr_colors 0 color_glyphs)
                \<and> colr_colors 0 color_glyphs ! i = c)
            \<and> (\<exists>i. colr_paint 1 (paint l) (colr_colors 1 color_glyphs) = Inr (UfoSolid i (alpha c))
                \<and> i < length (colr_colors 1 color_glyphs)
                \<and> colr_colors 1 color_glyphs ! i = opaque c)"
    proof (intro allI impI conjI)
      fix c assume p: "paint l = PaintSolid c"
      then have "paint_colors (paint l) = c # []" by simp
      from first [OF this]
      show "\<exists>i. colr_paint 0 (paint l) (colr_colors 0 color_glyphs) = Inr (PaletteIndex i)
                \<and> i < length (colr_colors 0 color_glyphs)
                \<and> colr_colors 0 color_glyphs ! i = c" .
      from v1 [THEN conjunct1, rule_format, OF p]
      show "\<exists>i. colr_paint 1 (paint l) (colr_colors 1 color_glyphs) = Inr (UfoSolid i (alpha c))
                \<and> i < length (colr_colors 1 color_glyphs)
                \<and> colr_colors 1 color_glyphs ! i = opaque c" .
    qed
    have d: "\<forall>offset c stops. paint l = PaintGradient ((offset, c) # stops) \<longrightarrow>
            (\<exists>i. colr_paint 0 (paint l) (colr_colors 0 color_glyphs) = Inr (PaletteIndex i)
                \<and> i < length (colr_colors 0 color_glyphs)
                \<and> colr_colors 0 color_glyphs ! i = c)"
    proof (intro allI impI)
      fix offset c stops assume p: "paint l = PaintGradient ((offset, c) # stops)"
      then have "paint_colors (paint l) = c # map snd stops" by simp
      from first [OF this]
      show "\<exists>i. colr_paint 0 (paint l) (colr_colors 0 color_glyphs) = Inr (PaletteIndex i)
                \<and> i < length (colr_colors 0 color_glyphs)
                \<and> colr_colors 0 color_glyphs ! i = c" .
    qed
    note e = v1 [THEN conjunct2]
    show "(\<forall>c cs. paint_colors (paint l) = c # cs \<longrightarrow>
            (\<exists>i. colr_paint 0 (paint l) (colr_colors 0 color_glyphs) = Inr (PaletteIndex i)
                \<and> i < length (colr_colors 0 color_glyphs)
                \<and> colr_colors 0 color_glyphs ! i = c))
       \<and> (paint_colors (paint l) = [] \<longrightarrow>
            colr_paint 0 (paint l) (colr_colors 0 color_glyphs) = Inl StopIteration)
       \<and> (\<forall>c. paint l = PaintSolid c \<longrightarrow>
            (\<exists>i. colr_paint 0 (paint l) (colr_colors 0 color_glyphs) = Inr (PaletteIndex i)
                \<and> i < length (colr_colors 0 color_glyphs)
                \<and> colr_colors 0 color_glyphs ! i = c)
            \<and> (\<exists>i. colr_paint 1 (paint l) (colr_colors 1 color_glyphs) = Inr (UfoSolid i (alpha c))
                \<and> i < length (colr_colors 1 color_glyphs)
                \<and> colr_colors 1 color_glyphs ! i = opaque c))
       \<and> (\<forall>offset c stops. paint l = PaintGradient ((offset, c) # stops) \<longrightarrow>
            (\<exists>i. colr_paint 0 (paint l) (colr_colors 0 color_glyphs) = Inr (PaletteIndex i)
                \<and> i < length (colr_colors 0 color_glyphs)
                \<and> colr_colors 0 color_glyphs ! i = c))
       \<and> (\<forall>stops. paint l = PaintGradient stops \<longrightarrow>
            (\<exists>line. colr_paint 1 (paint l) (colr_colors 1 color_glyphs) = Inr (UfoGradient line)
                \<and> length line = length stops
                \<and> map fst line = map fst stops
                \<and> (\<forall>k < length stops.
                      fst (snd (line ! k)) < length (colr_colors 1 color_glyphs)
                      \<and> colr_colors 1 color_glyphs ! fst (snd (line ! k)) = opaque (snd (stops ! k))
                      \<and> snd (snd (line ! k)) = alpha (snd (stops ! k)))))"
      by (rule conjI [OF a conjI [OF b conjI [OF c conjI [OF d e]]]])
  qed
  have enc: "finite (dom (layer u)) \<and> fresh_color_glyphs u color_glyphs
        \<and> (colr_version = 0 \<or> colr_version = 1)
        \<and> (colr_version = 0 \<longrightarrow> paints_have_colors color_glyphs) \<longrightarrow>
       (\<exists>u' color_layers. colr_ufo colr_version u color_glyphs = Some (Inr u')
           \<and> colorPalettes u' = Some [map to_ufo_color (colr_colors colr_version color_glyphs)]
           \<and> colorLayers u' = Some color_layers
           \<and> (\<forall>g \<in> set color_glyphs. \<exists>ls. color_layers (glyph_name g) = Some ls
                 \<and> map (\<lambda>e. Inr (snd e)) ls
                     = map (\<lambda>l. colr_paint colr_version (paint l)
                                   (colr_colors colr_version color_glyphs))
                         (as_painted_layers g))
           \<and> (\<forall>n. n \<notin> glyph_name ` set color_glyphs \<longrightarrow> color_layers n = None))"
  proof
    assume h: "finite (dom (layer u)) \<and> fresh_color_glyphs u color_glyphs
        \<and> (colr_version = 0 \<or> colr_version = 1)
        \<and> (colr_version = 0 \<longrightarrow> paints_have_colors color_glyphs)"
    then have h1: "finite (dom (layer u))" and h2: "fresh_color_glyphs u color_glyphs"
      and h3: "colr_version = 0 \<or> colr_version = 1"
      and h4: "colr_version = 0 \<longrightarrow> paints_have_colors color_glyphs"
      by blast+
    show "\<exists>u' color_layers. colr_ufo colr_version u color_glyphs = Some (Inr u')
           \<and> colorPalettes u' = Some [map to_ufo_color (colr_colors colr_version color_glyphs)]
           \<and> colorLayers u' = Some color_layers
           \<and> (\<forall>g \<in> set color_glyphs. \<exists>ls. color_layers (glyph_name g) = Some ls
                 \<and> map (\<lambda>e. Inr (snd e)) ls
                     = map (\<lambda>l. colr_paint colr_version (paint l)
                                   (colr_colors colr_version color_glyphs))
                         (as_painted_layers g))
           \<and> (\<forall>n. n \<notin> glyph_name ` set color_glyphs \<longrightarrow> color_layers n = None)"
      by (rule colr_ufo_returns [OF h1 h2 h3 h4])
  qed
  show ?thesis
    by (rule conjI [OF v0set conjI [OF v0d conjI [OF v0s conjI [OF v1set conjI [OF v1d
          conjI [OF v1s conjI [OF v1a conjI [OF paints enc]]]]]]]])
qed

lemma inr_snd_eq:
  fixes ls :: "(string \<times> colr_paint) list"
  assumes "map (\<lambda>e. Inr (snd e) :: error + colr_paint) ls = map Inr ps"
  shows "map snd ls = ps"
proof -
  have a: "map (Inr :: colr_paint \<Rightarrow> error + colr_paint) (map snd ls)
             = map (\<lambda>e. Inr (snd e)) ls"
    by (induction ls) simp_all
  have "map (Inr :: colr_paint \<Rightarrow> error + colr_paint) (map snd ls) = map Inr ps"
    by (rule trans [OF a assms])
  then show ?thesis by (simp only: inj_map_eq_map [OF inj_Inr])
qed

theorem colr_palette_and_paint_by_version_witness:
  "colr_colors 0 [example_face, example_moon]
       = [(0, 0, 255, 1), (0, 255, 0, 1/2), (255, 0, 0, 1)]
   \<and> colr_colors 1 [example_face, example_moon]
       = [(0, 0, 255, 1), (0, 255, 0, 1), (255, 0, 0, 1)]
   \<and> distinct (colr_colors 1 [example_face, example_moon])
   \<and> colr_paint 0 (PaintSolid (255, 0, 0, 1)) (colr_colors 0 [example_face, example_moon])
       = Inr (PaletteIndex 2)
   \<and> colr_paint 0 (PaintGradient [(0, (0, 0, 255, 1)), (1, (0, 255, 0, 1/2))])
       (colr_colors 0 [example_face, example_moon]) = Inr (PaletteIndex 0)
   \<and> colr_paint 1 (PaintSolid (255, 0, 0, 1)) (colr_colors 1 [example_face, example_moon])
       = Inr (UfoSolid 2 1)
   \<and> colr_paint 1 (PaintGradient [(0, (0, 0, 255, 1)), (1, (0, 255, 0, 1/2))])
       (colr_colors 1 [example_face, example_moon])
       = Inr (UfoGradient [(0, 0, 1), (1, 1, 1/2)])
   \<and> (\<exists>u' color_layers. colr_ufo 0 example_ufo [example_face, example_moon] = Some (Inr u')
         \<and> colorPalettes u' = Some [[(0, 0, 255, 1), (0, 255, 0, 1/2), (255, 0, 0, 1)]]
         \<and> colorLayers u' = Some color_layers
         \<and> (\<exists>ls. color_layers ''emoji_1f600'' = Some ls
               \<and> map snd ls = [PaletteIndex 0, PaletteIndex 2])
         \<and> (\<exists>ls. color_layers ''emoji_1f31a'' = Some ls \<and> map snd ls = [PaletteIndex 0]))"
proof -
  let ?gs = "[example_face, example_moon]"
  let ?grad = "PaintGradient [(0, (0, 0, 255, 1)), (1, (0, 255, 0, 1/2))]"
  note t = colr_palette_and_paint_by_version [of ?gs example_ufo 0]
  have d: "distinct (colr_colors 1 ?gs)"
    using t [THEN conjunct2, THEN conjunct2, THEN conjunct2, THEN conjunct2, THEN conjunct1] .
  have p0s: "colr_paint 0 (PaintSolid (255, 0, 0, 1)) (colr_colors 0 ?gs) = Inr (PaletteIndex 2)"
    by (simp add: example_colr_colors_v0 colr_paint_def py_index_def)
  have p0g: "colr_paint 0 ?grad (colr_colors 0 ?gs) = Inr (PaletteIndex 0)"
    by (simp add: example_colr_colors_v0 colr_paint_def py_index_def)
  have p1s: "colr_paint 1 (PaintSolid (255, 0, 0, 1)) (colr_colors 1 ?gs) = Inr (UfoSolid 2 1)"
    by (simp add: example_colr_colors_v1 colr_paint_def py_index_def opaque_def alpha_def)
  have p1g: "colr_paint 1 ?grad (colr_colors 1 ?gs) = Inr (UfoGradient [(0, 0, 1), (1, 1, 1/2)])"
    by (simp add: example_colr_colors_v1 colr_paint_def py_index_def opaque_def alpha_def)
  have p0b: "colr_paint 0 (PaintSolid (0, 0, 255, 1)) (colr_colors 0 ?gs) = Inr (PaletteIndex 0)"
    by (simp add: example_colr_colors_v0 colr_paint_def py_index_def)
  have h: "finite (dom (layer example_ufo)) \<and> fresh_color_glyphs example_ufo ?gs
        \<and> ((0::int) = 0 \<or> (0::int) = 1)
        \<and> ((0::int) = 0 \<longrightarrow> paints_have_colors ?gs)"
    using example_finite example_fresh example_paints_have_colors by simp
  from t [THEN conjunct2, THEN conjunct2, THEN conjunct2, THEN conjunct2, THEN conjunct2,
      THEN conjunct2, THEN conjunct2, THEN conjunct2, THEN mp, OF h]
  obtain u' cl where
    run: "colr_ufo 0 example_ufo ?gs = Some (Inr u')" and
    pal: "colorPalettes u' = Some [map to_ufo_color (colr_colors 0 ?gs)]" and
    lay: "colorLayers u' = Some cl" and
    each: "\<forall>g \<in> set ?gs. \<exists>ls. cl (glyph_name g) = Some ls
                 \<and> map (\<lambda>e. Inr (snd e)) ls
                     = map (\<lambda>l. colr_paint 0 (paint l) (colr_colors 0 ?gs)) (as_painted_layers g)"
    by (elim exE conjE) (rule that; assumption)
  have pal': "colorPalettes u' = Some [[(0, 0, 255, 1), (0, 255, 0, 1/2), (255, 0, 0, 1)]]"
    using pal by (simp add: example_colr_colors_v0 to_ufo_color_def)
  have m1: "example_face \<in> set ?gs" and m2: "example_moon \<in> set ?gs" by simp_all
  from each [rule_format, OF m1]
  obtain ls1 where ls1: "cl (glyph_name example_face) = Some ls1"
      "map (\<lambda>e. Inr (snd e)) ls1
         = map (\<lambda>l. colr_paint 0 (paint l) (colr_colors 0 ?gs)) (as_painted_layers example_face)"
    by blast
  have "map (\<lambda>l. colr_paint 0 (paint l) (colr_colors 0 ?gs)) (as_painted_layers example_face)
          = map Inr [PaletteIndex 0, PaletteIndex 2]"
    using p0s p0g by (simp add: example_face_def)
  then have s1: "map snd ls1 = [PaletteIndex 0, PaletteIndex 2]"
    using ls1(2) by (intro inr_snd_eq) simp
  have n1: "cl ''emoji_1f600'' = Some ls1" using ls1(1) by (simp add: example_face_def)
  from each [rule_format, OF m2]
  obtain ls2 where ls2: "cl (glyph_name example_moon) = Some ls2"
      "map (\<lambda>e. Inr (snd e)) ls2
         = map (\<lambda>l. colr_paint 0 (paint l) (colr_colors 0 ?gs)) (as_painted_layers example_moon)"
    by blast
  have "map (\<lambda>l. colr_paint 0 (paint l) (colr_colors 0 ?gs)) (as_painted_layers example_moon)
          = map Inr [PaletteIndex 0]"
    using p0b by (simp add: example_moon_def)
  then have s2: "map snd ls2 = [PaletteIndex 0]"
    using ls2(2) by (intro inr_snd_eq) simp
  have n2: "cl ''emoji_1f31a'' = Some ls2" using ls2(1) by (simp add: example_moon_def)
  have e1: "\<exists>ls. cl ''emoji_1f600'' = Some ls \<and> map snd ls = [PaletteIndex 0, PaletteIndex 2]"
    using n1 s1 by (intro exI [of _ ls1] conjI) assumption+
  have e2: "\<exists>ls. cl ''emoji_1f31a'' = Some ls \<and> map snd ls = [PaletteIndex 0]"
    using n2 s2 by (intro exI [of _ ls2] conjI) assumption+
  have enc: "\<exists>u' color_layers. colr_ufo 0 example_ufo ?gs = Some (Inr u')
         \<and> colorPalettes u' = Some [[(0, 0, 255, 1), (0, 255, 0, 1/2), (255, 0, 0, 1)]]
         \<and> colorLayers u' = Some color_layers
         \<and> (\<exists>ls. color_layers ''emoji_1f600'' = Some ls
               \<and> map snd ls = [PaletteIndex 0, PaletteIndex 2])
         \<and> (\<exists>ls. color_layers ''emoji_1f31a'' = Some ls \<and> map snd ls = [PaletteIndex 0])"
    using run pal' lay e1 e2 by (intro exI [of _ u'] exI [of _ cl] conjI) assumption+
  show ?thesis
    using example_colr_colors_v0 example_colr_colors_v1 d p0s p0g p1s p1g enc
    by (intro conjI) assumption+
qed

subsection \<open>Two runs of the palette-layered encoder\<close>

text \<open>
  C8. Two runs of the palette-layered encoder on the same font, the same color glyph list
  and the same version can differ only in the order in which Python walks the set of
  colors. Whatever the two walks \<open>e1\<close> and \<open>e2\<close>, both runs sort to the same palette, which is
  strictly ascending and is the palette of any list with the same color glyphs, and both
  runs give the same result, the one of \<^verbatim>\<open>_colr_ufo\<close>. On a font that holds a blank glyph for
  each color glyph, under version 0 or 1 (under version 0 with a color in every paint), both
  runs return the same font: its palette is the sorted palette, and its color-layers table
  holds, for each color glyph and for no other name, the paints of the glyph's layers in
  layer order.
\<close>

theorem colr_encoder_deterministic:
  assumes "set_walk e1 colr_version color_glyphs"
    and "set_walk e2 colr_version color_glyphs"
  shows "sort e1 = colr_colors colr_version color_glyphs
         \<and> sort e2 = colr_colors colr_version color_glyphs
         \<and> sorted (sort e1) \<and> distinct (sort e1)
         \<and> (\<forall>gs. set gs = set color_glyphs \<longrightarrow>
               colr_colors colr_version gs = colr_colors colr_version color_glyphs)
         \<and> colr_ufo_walk e1 colr_version u color_glyphs
             = colr_ufo_walk e2 colr_version u color_glyphs
         \<and> colr_ufo_walk e1 colr_version u color_glyphs = colr_ufo colr_version u color_glyphs
         \<and> (finite (dom (layer u)) \<and> fresh_color_glyphs u color_glyphs
              \<and> (colr_version = 0 \<or> colr_version = 1)
              \<and> (colr_version = 0 \<longrightarrow> paints_have_colors color_glyphs) \<longrightarrow>
             (\<exists>u' color_layers.
                 colr_ufo_walk e1 colr_version u color_glyphs = Some (Inr u')
                 \<and> colr_ufo_walk e2 colr_version u color_glyphs = Some (Inr u')
                 \<and> colorPalettes u' = Some [map to_ufo_color (sort e1)]
                 \<and> colorLayers u' = Some color_layers
                 \<and> (\<forall>g \<in> set color_glyphs. \<exists>ls. color_layers (glyph_name g) = Some ls
                       \<and> map (\<lambda>e. Inr (snd e)) ls
                           = map (\<lambda>l. colr_paint colr_version (paint l) (sort e2))
                               (as_painted_layers g))
                 \<and> (\<forall>n. n \<notin> glyph_name ` set color_glyphs \<longrightarrow> color_layers n = None)))"
proof -
  have s: "sort e = colr_colors colr_version color_glyphs"
    if "set_walk e colr_version color_glyphs" for e
  proof -
    have d: "distinct e"
      and m: "set e = set (map (\<lambda>c. if colr_version = 0 then c else opaque c)
                         (concat (map colors color_glyphs)))"
      using that unfolding set_walk_def by blast+
    have "colr_colors colr_version color_glyphs = sorted_list_of_set (set e)"
      using m by (simp only: colr_colors_def)
    also have "\<dots> = sort (remdups e)" by (rule sorted_list_of_set_sort_remdups)
    also have "\<dots> = sort e" using d by (simp add: distinct_remdups_id)
    finally show ?thesis by simp
  qed
  have s1: "sort e1 = colr_colors colr_version color_glyphs" using assms(1) by (rule s)
  have s2: "sort e2 = colr_colors colr_version color_glyphs" using assms(2) by (rule s)
  have so: "sorted (sort e1)" by simp
  have di: "distinct (sort e1)" unfolding s1 by (simp add: colr_colors_def)
  have perm: "\<forall>gs. set gs = set color_glyphs \<longrightarrow>
               colr_colors colr_version gs = colr_colors colr_version color_glyphs"
  proof (intro allI impI)
    fix gs :: "ColorGlyph list" assume "set gs = set color_glyphs"
    then have "set (concat (map colors gs)) = set (concat (map colors color_glyphs))" by simp
    then have "set (map (\<lambda>c. if colr_version = 0 then c else opaque c) (concat (map colors gs)))
        = set (map (\<lambda>c. if colr_version = 0 then c else opaque c)
                 (concat (map colors color_glyphs)))"
      by (simp only: set_map)
    then show "colr_colors colr_version gs = colr_colors colr_version color_glyphs"
      by (simp only: colr_colors_def)
  qed
  have same: "colr_ufo_walk e1 colr_version u color_glyphs
             = colr_ufo_walk e2 colr_version u color_glyphs"
    by (simp add: colr_ufo_walk_def s1 s2)
  have ref: "colr_ufo_walk e1 colr_version u color_glyphs = colr_ufo colr_version u color_glyphs"
    by (simp add: colr_ufo_walk_def s1 colr_ufo_def)
  have w2: "colr_ufo_walk e2 colr_version u color_glyphs = colr_ufo colr_version u color_glyphs"
    by (simp add: colr_ufo_walk_def s2 colr_ufo_def)
  have total: "finite (dom (layer u)) \<and> fresh_color_glyphs u color_glyphs
              \<and> (colr_version = 0 \<or> colr_version = 1)
              \<and> (colr_version = 0 \<longrightarrow> paints_have_colors color_glyphs) \<longrightarrow>
             (\<exists>u' color_layers.
                 colr_ufo_walk e1 colr_version u color_glyphs = Some (Inr u')
                 \<and> colr_ufo_walk e2 colr_version u color_glyphs = Some (Inr u')
                 \<and> colorPalettes u' = Some [map to_ufo_color (sort e1)]
                 \<and> colorLayers u' = Some color_layers
                 \<and> (\<forall>g \<in> set color_glyphs. \<exists>ls. color_layers (glyph_name g) = Some ls
                       \<and> map (\<lambda>e. Inr (snd e)) ls
                           = map (\<lambda>l. colr_paint colr_version (paint l) (sort e2))
                               (as_painted_layers g))
                 \<and> (\<forall>n. n \<notin> glyph_name ` set color_glyphs \<longrightarrow> color_layers n = None))"
  proof
    assume h: "finite (dom (layer u)) \<and> fresh_color_glyphs u color_glyphs
        \<and> (colr_version = 0 \<or> colr_version = 1)
        \<and> (colr_version = 0 \<longrightarrow> paints_have_colors color_glyphs)"
    then have h1: "finite (dom (layer u))" and h2: "fresh_color_glyphs u color_glyphs"
      and h3: "colr_version = 0 \<or> colr_version = 1"
      and h4: "colr_version = 0 \<longrightarrow> paints_have_colors color_glyphs"
      by blast+
    from colr_ufo_returns [OF h1 h2 h3 h4]
    obtain u' cl where
      run: "colr_ufo colr_version u color_glyphs = Some (Inr u')" and
      pal: "colorPalettes u' = Some [map to_ufo_color (colr_colors colr_version color_glyphs)]" and
      lay: "colorLayers u' = Some cl" and
      each: "\<forall>g \<in> set color_glyphs. \<exists>ls. cl (glyph_name g) = Some ls
                 \<and> map (\<lambda>e. Inr (snd e)) ls
                     = map (\<lambda>l. colr_paint colr_version (paint l)
                                   (colr_colors colr_version color_glyphs))
                         (as_painted_layers g)" and
      frame: "\<forall>n. n \<notin> glyph_name ` set color_glyphs \<longrightarrow> cl n = None"
      by (elim exE conjE) (rule that; assumption)
    have r1: "colr_ufo_walk e1 colr_version u color_glyphs = Some (Inr u')"
      using ref run by (simp only:)
    have r2: "colr_ufo_walk e2 colr_version u color_glyphs = Some (Inr u')"
      using w2 run by (simp only:)
    have pal': "colorPalettes u' = Some [map to_ufo_color (sort e1)]"
      using pal by (simp only: s1)
    have each': "\<forall>g \<in> set color_glyphs. \<exists>ls. cl (glyph_name g) = Some ls
                       \<and> map (\<lambda>e. Inr (snd e)) ls
                           = map (\<lambda>l. colr_paint colr_version (paint l) (sort e2))
                               (as_painted_layers g)"
      using each by (simp only: s2)
    show "\<exists>u' color_layers.
                 colr_ufo_walk e1 colr_version u color_glyphs = Some (Inr u')
                 \<and> colr_ufo_walk e2 colr_version u color_glyphs = Some (Inr u')
                 \<and> colorPalettes u' = Some [map to_ufo_color (sort e1)]
                 \<and> colorLayers u' = Some color_layers
                 \<and> (\<forall>g \<in> set color_glyphs. \<exists>ls. color_layers (glyph_name g) = Some ls
                       \<and> map (\<lambda>e. Inr (snd e)) ls
                           = map (\<lambda>l. colr_paint colr_version (paint l) (sort e2))
                               (as_painted_layers g))
                 \<and> (\<forall>n. n \<notin> glyph_name ` set color_glyphs \<longrightarrow> color_layers n = None)"
      using r1 r2 pal' lay each' frame
      by (intro exI [of _ u'] exI [of _ cl] conjI) assumption+
  qed
  show ?thesis
    by (rule conjI [OF s1 conjI [OF s2 conjI [OF so conjI [OF di conjI [OF perm
          conjI [OF same conjI [OF ref total]]]]]]])
qed

theorem colr_encoder_deterministic_witness:
  "set_walk [(255, 0, 0, 1), (0, 0, 255, 1), (0, 255, 0, 1/2)] 0 [example_face, example_moon]
   \<and> set_walk [(0, 255, 0, 1/2), (255, 0, 0, 1), (0, 0, 255, 1)] 0 [example_face, example_moon]
   \<and> (\<exists>u' color_layers.
         colr_ufo_walk [(255, 0, 0, 1), (0, 0, 255, 1), (0, 255, 0, 1/2)] 0 example_ufo
             [example_face, example_moon] = Some (Inr u')
         \<and> colr_ufo_walk [(0, 255, 0, 1/2), (255, 0, 0, 1), (0, 0, 255, 1)] 0 example_ufo
             [example_face, example_moon] = Some (Inr u')
         \<and> colorPalettes u' = Some [[(0, 0, 255, 1), (0, 255, 0, 1/2), (255, 0, 0, 1)]]
         \<and> colorLayers u' = Some color_layers
         \<and> (\<exists>ls. color_layers ''emoji_1f600'' = Some ls
               \<and> map snd ls = [PaletteIndex 0, PaletteIndex 2]))"
proof -
  let ?e1 = "[(255, 0, 0, 1), (0, 0, 255, 1), (0, 255, 0, 1/2)] :: color list"
  let ?e2 = "[(0, 255, 0, 1/2), (255, 0, 0, 1), (0, 0, 255, 1)] :: color list"
  let ?gs = "[example_face, example_moon]"
  have c: "set (map (\<lambda>c. if (0::int) = 0 then c else opaque c) (concat (map colors ?gs)))
           = {(0, 0, 255, 1), (0, 255, 0, 1/2), (255, 0, 0, 1)}"
    by (auto simp add: example_colors)
  have w1: "set_walk ?e1 0 ?gs" unfolding set_walk_def c by auto
  have w2: "set_walk ?e2 0 ?gs" unfolding set_walk_def c by auto
  note t = colr_encoder_deterministic [OF w1 w2, of example_ufo]
  have s1: "sort ?e1 = colr_colors 0 ?gs" using t by (rule conjunct1)
  have s2: "sort ?e2 = colr_colors 0 ?gs" using t [THEN conjunct2] by (rule conjunct1)
  have h: "finite (dom (layer example_ufo)) \<and> fresh_color_glyphs example_ufo ?gs
        \<and> ((0::int) = 0 \<or> (0::int) = 1)
        \<and> ((0::int) = 0 \<longrightarrow> paints_have_colors ?gs)"
    using example_finite example_fresh example_paints_have_colors by simp
  from t [THEN conjunct2, THEN conjunct2, THEN conjunct2, THEN conjunct2, THEN conjunct2,
      THEN conjunct2, THEN conjunct2, THEN mp, OF h]
  obtain u' cl where
    r1: "colr_ufo_walk ?e1 0 example_ufo ?gs = Some (Inr u')" and
    r2: "colr_ufo_walk ?e2 0 example_ufo ?gs = Some (Inr u')" and
    pal: "colorPalettes u' = Some [map to_ufo_color (sort ?e1)]" and
    lay: "colorLayers u' = Some cl" and
    each: "\<forall>g \<in> set ?gs. \<exists>ls. cl (glyph_name g) = Some ls
                 \<and> map (\<lambda>e. Inr (snd e)) ls
                     = map (\<lambda>l. colr_paint 0 (paint l) (sort ?e2)) (as_painted_layers g)"
    by (elim exE conjE) (rule that; assumption)
  have pal': "colorPalettes u' = Some [[(0, 0, 255, 1), (0, 255, 0, 1/2), (255, 0, 0, 1)]]"
    using pal unfolding s1 by (simp add: example_colr_colors_v0 to_ufo_color_def)
  have p0s: "colr_paint 0 (PaintSolid (255, 0, 0, 1)) (colr_colors 0 ?gs) = Inr (PaletteIndex 2)"
    by (simp add: example_colr_colors_v0 colr_paint_def py_index_def)
  have p0g: "colr_paint 0 (PaintGradient [(0, (0, 0, 255, 1)), (1, (0, 255, 0, 1/2))])
               (colr_colors 0 ?gs) = Inr (PaletteIndex 0)"
    by (simp add: example_colr_colors_v0 colr_paint_def py_index_def)
  have m1: "example_face \<in> set ?gs" by simp
  from each [rule_format, OF m1]
  obtain ls1 where n: "cl (glyph_name example_face) = Some ls1" and
    e: "map (\<lambda>e. Inr (snd e)) ls1
         = map (\<lambda>l. colr_paint 0 (paint l) (sort ?e2)) (as_painted_layers example_face)"
    by (elim exE conjE) (rule that; assumption)
  have "map (\<lambda>l. colr_paint 0 (paint l) (colr_colors 0 ?gs)) (as_painted_layers example_face)
          = map Inr [PaletteIndex 0, PaletteIndex 2]"
    using p0s p0g by (simp add: example_face_def)
  then have "map (\<lambda>e. Inr (snd e) :: error + colr_paint) ls1 = map Inr [PaletteIndex 0, PaletteIndex 2]"
    using e unfolding s2 by (simp only:)
  then have sn: "map snd ls1 = [PaletteIndex 0, PaletteIndex 2]" by (rule inr_snd_eq)
  have n1: "cl ''emoji_1f600'' = Some ls1" using n by (simp add: example_face_def)
  have e1: "\<exists>ls. cl ''emoji_1f600'' = Some ls \<and> map snd ls = [PaletteIndex 0, PaletteIndex 2]"
    using n1 sn by (intro exI [of _ ls1] conjI) assumption+
  have run: "\<exists>u' color_layers.
         colr_ufo_walk ?e1 0 example_ufo ?gs = Some (Inr u')
         \<and> colr_ufo_walk ?e2 0 example_ufo ?gs = Some (Inr u')
         \<and> colorPalettes u' = Some [[(0, 0, 255, 1), (0, 255, 0, 1/2), (255, 0, 0, 1)]]
         \<and> colorLayers u' = Some color_layers
         \<and> (\<exists>ls. color_layers ''emoji_1f600'' = Some ls
               \<and> map snd ls = [PaletteIndex 0, PaletteIndex 2])"
    using r1 r2 pal' lay e1 by (intro exI [of _ u'] exI [of _ cl] conjI) assumption+
  show ?thesis
    using w1 w2 run by (intro conjI) assumption+
qed

subsection \<open>The bitmap formats and other palette versions\<close>









subsection \<open>Back-references of the embedded-document encoder\<close>

lemma translate_back_identity:
  "(translate r (- aff_e r) (- aff_f r) = identity) = pure_translation r"
  by (cases r) (auto simp add: translate_def product_def identity_def pure_translation_def)

lemma ensure_has_id_effect:
  assumes "el < length (children g)"
  shows "\<exists>i. attrib_id (children (ensure_has_id el g) ! el) = Some i
           \<and> length (children (ensure_has_id el g)) = length (children g)
           \<and> g_id (ensure_has_id el g) = g_id g
           \<and> (\<forall>j. attrib_id (children g ! el) = Some j \<longrightarrow> ensure_has_id el g = g)
           \<and> (attrib_id (children g ! el) = None \<longrightarrow> i = g_id g @ ''::'' @ str_nat el)
           \<and> (\<forall>k < length (children g). k \<noteq> el \<longrightarrow>
                 children (ensure_has_id el g) ! k = children g ! k)"
  using assms by (cases "attrib_id (children g ! el)") (simp_all add: ensure_has_id_def)

lemma ensure_has_id_known:
  assumes "el < length (children g)" and "attrib_id (children g ! el) = Some i"
  shows "ensure_has_id el g = g"
  using assms by (simp add: ensure_has_id_def)

lemma add_reuses_with_id:
  assumes "el < length (children g)" and "attrib_id (children g ! el) = Some i"
    and "\<forall>r \<in> set rs. pure_translation r"
  shows "add_reuses el rs g = Inr (g\<lparr>children := children g @ map (use_with_offset i) rs\<rparr>)"
  using assms
proof (induction rs arbitrary: g)
  case Nil
  then show ?case by simp
next
  case (Cons r rs)
  have e: "ensure_has_id el g = g" using Cons.prems(1,2) by (rule ensure_has_id_known)
  have p: "translate r (- aff_e r) (- aff_f r) = identity"
    using Cons.prems(3) by (simp add: translate_back_identity)
  let ?g2 = "g\<lparr>children := children g @ [use_with_offset i r]\<rparr>"
  have step: "add_reuses el (r # rs) g = add_reuses el rs ?g2"
    using Cons.prems(2) p by (simp add: e gettranslate_def use_with_offset_def Let_def)
  have l2: "el < length (children ?g2)" using Cons.prems(1) by simp
  have i2: "attrib_id (children ?g2 ! el) = Some i"
    using Cons.prems(1,2) by (simp add: nth_append)
  have rest: "\<forall>r \<in> set rs. pure_translation r" using Cons.prems(3) by simp
  show ?case
    unfolding step Cons.IH [OF l2 i2 rest] by simp
qed

lemma add_reuses_translations:
  assumes "el < length (children g)" and "rs \<noteq> []"
    and "\<forall>r \<in> set rs. pure_translation r"
  shows "\<exists>i. attrib_id (children (ensure_has_id el g) ! el) = Some i
           \<and> add_reuses el rs g
               = Inr ((ensure_has_id el g)
                        \<lparr>children := children (ensure_has_id el g) @ map (use_with_offset i) rs\<rparr>)"
proof -
  from ensure_has_id_effect [OF assms(1)]
  obtain i where i: "attrib_id (children (ensure_has_id el g) ! el) = Some i"
    and l: "length (children (ensure_has_id el g)) = length (children g)"
    by blast
  let ?g1 = "ensure_has_id el g"
  have l1: "el < length (children ?g1)" using assms(1) l by simp
  have idem: "ensure_has_id el ?g1 = ?g1" using l1 i by (rule ensure_has_id_known)
  obtain r rest where rs: "rs = r # rest" using assms(2) by (cases rs) auto
  have "add_reuses el rs g = add_reuses el rs ?g1"
    by (simp add: rs idem Let_def)
  also have "\<dots> = Inr (?g1\<lparr>children := children ?g1 @ map (use_with_offset i) rs\<rparr>)"
    using l1 i assms(3) by (rule add_reuses_with_id)
  finally show ?thesis using i by blast
qed

lemma add_reuses_not_translation:
  assumes "el < length (children g)" and "\<exists>r \<in> set rs. \<not> pure_translation r"
  shows "add_reuses el rs g = Inl (NotImplementedError ''TODO apply scale & rotation to use'')"
  using assms
proof (induction rs arbitrary: g)
  case Nil
  then show ?case by simp
next
  case (Cons r rs)
  from ensure_has_id_effect [OF Cons.prems(1)]
  obtain i where i: "attrib_id (children (ensure_has_id el g) ! el) = Some i"
    and l: "length (children (ensure_has_id el g)) = length (children g)"
    by blast
  show ?case
  proof (cases "pure_translation r")
    case False
    then have "translate r (- aff_e r) (- aff_f r) \<noteq> identity"
      by (simp add: translate_back_identity)
    then show ?thesis using i by (simp add: gettranslate_def Let_def)
  next
    case True
    then have p: "translate r (- aff_e r) (- aff_f r) = identity"
      by (simp add: translate_back_identity)
    let ?g1 = "ensure_has_id el g"
    let ?g2 = "?g1\<lparr>children := children ?g1 @ [use_with_offset i r]\<rparr>"
    have step: "add_reuses el (r # rs) g = add_reuses el rs ?g2"
      using i p by (simp add: gettranslate_def use_with_offset_def Let_def)
    have l2: "el < length (children ?g2)" using Cons.prems(1) l by simp
    have rest: "\<exists>r \<in> set rs. \<not> pure_translation r" using Cons.prems(2) True by auto
    show ?thesis unfolding step by (rule Cons.IH [OF l2 rest])
  qed
qed

lemma add_reuses_children:
  assumes "add_reuses el rs g = Inr g'" and "el < length (children g)"
  shows "length (children g) \<le> length (children g')
         \<and> (\<forall>r \<in> set rs. pure_translation r)"
proof -
  have all: "\<forall>r \<in> set rs. pure_translation r"
  proof (rule ccontr)
    assume "\<not> (\<forall>r \<in> set rs. pure_translation r)"
    then have "\<exists>r \<in> set rs. \<not> pure_translation r" by blast
    from add_reuses_not_translation [OF assms(2) this] assms(1) show False by simp
  qed
  show ?thesis
  proof (cases "rs = []")
    case True
    then show ?thesis using assms(1) all by simp
  next
    case False
    from add_reuses_translations [OF assms(2) False all] assms(1)
    obtain i where "g' = (ensure_has_id el g)
                        \<lparr>children := children (ensure_has_id el g) @ map (use_with_offset i) rs\<rparr>"
      by auto
    moreover have "length (children (ensure_has_id el g)) = length (children g)"
      using ensure_has_id_effect [OF assms(2)] by blast
    ultimately show ?thesis using all by simp
  qed
qed

lemma add_layers_seen_key:
  assumes "glyphs (inter_glyph_reuse_key l) = Some el" and "el < length (children g)"
  shows "\<exists>i. attrib_id (children (ensure_has_id el g) ! el) = Some i
           \<and> add_layers id_updates (l # rest) (g, glyphs)
               = add_layers id_updates rest
                   ((ensure_has_id el g)
                      \<lparr>children := children (ensure_has_id el g)
                           @ [(Element ''use'')\<lparr>attrib_href := Some (CHR ''#'' # i)\<rparr>]\<rparr>,
                    glyphs)"
proof -
  from ensure_has_id_effect [OF assms(2)]
  obtain i where i: "attrib_id (children (ensure_has_id el g) ! el) = Some i" by blast
  have "add_layers id_updates (l # rest) (g, glyphs)
               = add_layers id_updates rest
                   ((ensure_has_id el g)
                      \<lparr>children := children (ensure_has_id el g)
                           @ [(Element ''use'')\<lparr>attrib_href := Some (CHR ''#'' # i)\<rparr>]\<rparr>,
                    glyphs)"
    using assms(1) i by (simp add: Let_def)
  with i show ?thesis by blast
qed

lemma add_layers_not_translation:
  assumes "\<exists>l \<in> set ls. \<exists>r \<in> set (reuses l). \<not> pure_translation r"
    and "\<forall>k el. glyphs k = Some el \<longrightarrow> el < length (children g) \<and> (\<forall>r \<in> set (snd k). pure_translation r)"
  shows "add_layers id_updates ls (g, glyphs)
           = Inl (NotImplementedError ''TODO apply scale & rotation to use'')"
  using assms
proof (induction ls arbitrary: g glyphs)
  case Nil
  then show ?case by simp
next
  case (Cons l ls)
  let ?k = "inter_glyph_reuse_key l"
  have snd_k: "snd ?k = reuses l" by (simp add: inter_glyph_reuse_key_def)
  show ?case
  proof (cases "glyphs ?k")
    case (Some el)
    note inv0 = Cons.prems(2) [rule_format, OF Some]
    have el: "el < length (children g)" using inv0 by (rule conjunct1)
    have pure: "\<forall>r \<in> set (reuses l). pure_translation r"
      using inv0 [THEN conjunct2] by (simp only: snd_k)
    from add_layers_seen_key [of glyphs l el g id_updates ls, OF Some el]
    obtain i where step: "add_layers id_updates (l # ls) (g, glyphs)
               = add_layers id_updates ls
                   ((ensure_has_id el g)
                      \<lparr>children := children (ensure_has_id el g)
                           @ [(Element ''use'')\<lparr>attrib_href := Some (CHR ''#'' # i)\<rparr>]\<rparr>,
                    glyphs)"
      by blast
    let ?g1 = "(ensure_has_id el g)
                      \<lparr>children := children (ensure_has_id el g)
                           @ [(Element ''use'')\<lparr>attrib_href := Some (CHR ''#'' # i)\<rparr>]\<rparr>"
    have rest: "\<exists>l \<in> set ls. \<exists>r \<in> set (reuses l). \<not> pure_translation r"
      using Cons.prems(1) pure by auto
    have inv: "\<forall>k el. glyphs k = Some el \<longrightarrow>
                 el < length (children ?g1) \<and> (\<forall>r \<in> set (snd k). pure_translation r)"
    proof (intro allI impI)
      fix k e assume "glyphs k = Some e"
      then have "e < length (children g)" and p: "\<forall>r \<in> set (snd k). pure_translation r"
        using Cons.prems(2) by blast+
      moreover have "length (children (ensure_has_id el g)) = length (children g)"
        using ensure_has_id_effect [OF el] by blast
      ultimately show "e < length (children ?g1) \<and> (\<forall>r \<in> set (snd k). pure_translation r)"
        by simp
    qed
    show ?thesis unfolding step by (rule Cons.IH [OF rest inv])
  next
    case None
    let ?el = "length (children g)"
    let ?g1 = "g\<lparr>children := children g @ [update_fill id_updates (to_element (path l))]\<rparr>"
    have l1: "?el < length (children ?g1)" by simp
    show ?thesis
    proof (cases "\<forall>r \<in> set (reuses l). pure_translation r")
      case False
      then have "\<exists>r \<in> set (reuses l). \<not> pure_translation r" by blast
      from add_reuses_not_translation [OF l1 this]
      show ?thesis using None by (simp add: Let_def)
    next
      case True
      obtain g2 where g2: "add_reuses ?el (reuses l) ?g1 = Inr g2"
      proof (cases "reuses l = []")
        case True
        then show ?thesis using that by simp
      next
        case False
        from add_reuses_translations [OF l1 False True] show ?thesis using that by blast
      qed
      have step: "add_layers id_updates (l # ls) (g, glyphs)
                    = add_layers id_updates ls (g2, glyphs(?k \<mapsto> ?el))"
        using None g2 by (simp add: Let_def)
      have len: "length (children ?g1) \<le> length (children g2)"
        using add_reuses_children [OF g2 l1] by blast
      have rest: "\<exists>l \<in> set ls. \<exists>r \<in> set (reuses l). \<not> pure_translation r"
        using Cons.prems(1) True by auto
      have inv: "\<forall>k e. (glyphs(?k \<mapsto> ?el)) k = Some e \<longrightarrow>
                 e < length (children g2) \<and> (\<forall>r \<in> set (snd k). pure_translation r)"
      proof (intro allI impI)
        fix k e assume a: "(glyphs(?k \<mapsto> ?el)) k = Some e"
        show "e < length (children g2) \<and> (\<forall>r \<in> set (snd k). pure_translation r)"
        proof (cases "k = ?k")
          case True
          then have "e = ?el" using a by simp
          then show ?thesis using len True \<open>\<forall>r \<in> set (reuses l). pure_translation r\<close> snd_k by simp
        next
          case False
          then have "glyphs k = Some e" using a by simp
          then have "e < length (children g)" and "\<forall>r \<in> set (snd k). pure_translation r"
            using Cons.prems(2) by blast+
          then show ?thesis using len by simp
        qed
      qed
      show ?thesis unfolding step by (rule Cons.IH [OF rest inv])
    qed
  qed
qed

lemma add_glyph_to_svg_not_translation:
  assumes "\<exists>l \<in> set (as_painted_layers color_glyph). \<exists>r \<in> set (reuses l). \<not> pure_translation r"
  shows "add_glyph_to_svg svg color_glyph id_updates
           = Inl (NotImplementedError ''TODO apply scale & rotation to use'')"
proof -
  have "add_layers id_updates (as_painted_layers color_glyph)
          (\<lparr>g_id = glyph_name color_glyph, children = []\<rparr>, Map.empty)
        = Inl (NotImplementedError ''TODO apply scale & rotation to use'')"
    by (rule add_layers_not_translation [OF assms]) simp
  then show ?thesis by (simp add: add_glyph_to_svg_def)
qed

lemma add_layers_first_layer:
  assumes "glyphs (inter_glyph_reuse_key l) = None"
    and "reuses l \<noteq> []" and "\<forall>r \<in> set (reuses l). pure_translation r"
  shows "\<exists>i g1. g1 = ensure_has_id (length (children g))
                        (g\<lparr>children := children g @ [update_fill id_updates (to_element (path l))]\<rparr>)
           \<and> attrib_id (children g1 ! length (children g)) = Some i
           \<and> add_layers id_updates (l # rest) (g, glyphs)
               = add_layers id_updates rest
                   (g1\<lparr>children := children g1 @ map (use_with_offset i) (reuses l)\<rparr>,
                    glyphs(inter_glyph_reuse_key l \<mapsto> length (children g)))"
proof -
  let ?el = "length (children g)"
  let ?g0 = "g\<lparr>children := children g @ [update_fill id_updates (to_element (path l))]\<rparr>"
  have l0: "?el < length (children ?g0)" by simp
  from add_reuses_translations [OF l0 assms(2,3)]
  obtain i where i: "attrib_id (children (ensure_has_id ?el ?g0) ! ?el) = Some i"
    and r: "add_reuses ?el (reuses l) ?g0
               = Inr ((ensure_has_id ?el ?g0)
                        \<lparr>children := children (ensure_has_id ?el ?g0) @ map (use_with_offset i) (reuses l)\<rparr>)"
    by blast
  have "add_layers id_updates (l # rest) (g, glyphs)
               = add_layers id_updates rest
                   ((ensure_has_id ?el ?g0)
                      \<lparr>children := children (ensure_has_id ?el ?g0) @ map (use_with_offset i) (reuses l)\<rparr>,
                    glyphs(inter_glyph_reuse_key l \<mapsto> ?el))"
    using assms(1) r by (simp add: Let_def)
  with i show ?thesis by blast
qed

text \<open>
  C3. For a painted layer that is the first of its glyph with its reuse key, the encoder
  emits one back-reference per reuse that carries exactly the reuse's offset when every
  reuse is a pure translation (\<open>add_layers_first_layer\<close>), and a glyph with any reuse that is
  not a pure translation raises NotImplementedError (\<open>add_glyph_to_svg_not_translation\<close>).
  For a later layer of the same glyph with the same reuse key the encoder takes its other
  branch (\<open>add_layers_seen_key\<close>): it emits a single back-reference without offset and walks
  none of the layer's reuses. On the two-tone example, whose second layer repeats the path
  and the reuse (a translation by 5 along x) of the first, the group that the encoder
  writes holds the path, the back-reference of the first layer with \<open>x = 5\<close>, and for the
  second layer one back-reference with no offset: the second layer's translation by 5 is
  in no element, and the encoder returns without raising.
\<close>

theorem add_glyph_to_svg_repeated_key_loses_offset:
  "add_glyph_to_svg \<lparr>svg_defs = [], svg_groups = []\<rparr> example_two_tone Map.empty
     = Inr \<lparr>svg_defs = [],
            svg_groups =
              [\<lparr>g_id = ''emoji_2b1b'',
                children =
                  [(Element ''path'')
                     \<lparr>attrib_id := Some ''emoji_2b1b::0'', attrib_d := Some ''M0,0 L1,0 L1,1 Z'',
                      attrib_fill := Some ''red''\<rparr>,
                   use_with_offset ''emoji_2b1b::0'' (Affine2D 1 0 0 1 5 0),
                   (Element ''use'')\<lparr>attrib_href := Some ''#emoji_2b1b::0''\<rparr>]\<rparr>]\<rparr>
   \<and> reuses (as_painted_layers example_two_tone ! 1) = [Affine2D 1 0 0 1 5 0]
   \<and> pure_translation (Affine2D 1 0 0 1 5 0)
   \<and> gettranslate (Affine2D 1 0 0 1 5 0) = (5, 0)
   \<and> attrib_x (use_with_offset ''emoji_2b1b::0'' (Affine2D 1 0 0 1 5 0)) = Some 5
   \<and> attrib_x ((Element ''use'')\<lparr>attrib_href := Some ''#emoji_2b1b::0''\<rparr>) = None"
  by (simp add: add_glyph_to_svg_def example_two_tone_def inter_glyph_reuse_key_def Let_def
      to_element_def update_fill_def match_url_def Element_def ensure_has_id_def
      str_nat.simps digit_char_def gettranslate_def translate_def product_def identity_def
      use_with_offset_def pure_translation_def)

end
